theory Spec2Isabelle
  imports Complex_Main "HOL-Library.Word"
begin

section \<open>AsyncCallback: lock-free statistics (status\_handler\_impl.h, lines 24-34 and 220-237)\<close>

text \<open>
  The four pending deltas of \<open>AsyncCallback\<close> are \<open>std::atomic<int>\<close> and
  \<open>std::atomic<int64_t>\<close>. Atomic addition on signed integers is defined to wrap
  around (two's complement), so the counters are words of 32 and 64 bits.
\<close>

record StatDeltas =
  itemsDeltaProcessed :: "32 word"
  bytesDeltaProcessed :: "64 word"
  itemsDeltaTotal :: "32 word"
  bytesDeltaTotal :: "64 word"

definition noDeltas :: StatDeltas where
  "noDeltas = \<lparr>itemsDeltaProcessed = 0, bytesDeltaProcessed = 0,
               itemsDeltaTotal = 0, bytesDeltaTotal = 0\<rparr>"

text \<open>One atomic read-modify-write on one of the four counters.\<close>

datatype AtomicAdd =
    AddItemsProcessed "32 word"
  | AddBytesProcessed "64 word"
  | AddItemsTotal "32 word"
  | AddBytesTotal "64 word"

fun atomicAdd :: "AtomicAdd \<Rightarrow> StatDeltas \<Rightarrow> StatDeltas" where
  "atomicAdd (AddItemsProcessed d) s = s\<lparr>itemsDeltaProcessed := itemsDeltaProcessed s + d\<rparr>"
| "atomicAdd (AddBytesProcessed d) s = s\<lparr>bytesDeltaProcessed := bytesDeltaProcessed s + d\<rparr>"
| "atomicAdd (AddItemsTotal d) s = s\<lparr>itemsDeltaTotal := itemsDeltaTotal s + d\<rparr>"
| "atomicAdd (AddBytesTotal d) s = s\<lparr>bytesDeltaTotal := bytesDeltaTotal s + d\<rparr>"

definition atomicAdds :: "AtomicAdd list \<Rightarrow> StatDeltas \<Rightarrow> StatDeltas" where
  "atomicAdds ops s = foldl (\<lambda>s' a. atomicAdd a s') s ops"

text \<open>\<open>AsyncCallback::updateDataProcessed\<close> and \<open>updateDataTotal\<close>: two atomic
  additions, items first.\<close>

definition updateDataProcessed :: "32 word \<Rightarrow> 64 word \<Rightarrow> StatDeltas \<Rightarrow> StatDeltas" where
  "updateDataProcessed itemsDelta bytesDelta s =
     atomicAdd (AddBytesProcessed bytesDelta) (atomicAdd (AddItemsProcessed itemsDelta) s)"

definition updateDataTotal :: "32 word \<Rightarrow> 64 word \<Rightarrow> StatDeltas \<Rightarrow> StatDeltas" where
  "updateDataTotal itemsDelta bytesDelta s =
     atomicAdd (AddBytesTotal bytesDelta) (atomicAdd (AddItemsTotal itemsDelta) s)"

text \<open>The calls a worker thread makes on the accumulator, and a sequence of them.\<close>

datatype WorkerCall =
    WorkerProcessed "32 word" "64 word"
  | WorkerTotal "32 word" "64 word"

fun workerCall :: "WorkerCall \<Rightarrow> StatDeltas \<Rightarrow> StatDeltas" where
  "workerCall (WorkerProcessed i b) s = updateDataProcessed i b s"
| "workerCall (WorkerTotal i b) s = updateDataTotal i b s"

definition workerCalls :: "WorkerCall list \<Rightarrow> StatDeltas \<Rightarrow> StatDeltas" where
  "workerCalls cs s = foldl (\<lambda>s' c. workerCall c s') s cs"

text \<open>The statistics calls that reach the external \<open>PhaseCallback\<close>.\<close>

datatype PhaseStatCall =
    CbUpdateDataProcessed "32 word" "64 word"
  | CbUpdateDataTotal "32 word" "64 word"

text \<open>
  \<open>AsyncCallback::reportStats\<close>, run without interference: read both counters of a
  pair, and when one of them is not zero add the negated values back and forward the
  values read. The function returns the calls made on the external callback, in order.
  (The negation is taken on a plain \<open>int\<close>; for the single value \<open>INT_MIN\<close> that is
  undefined in C++, the word model wraps.)
\<close>

definition reportStats :: "StatDeltas \<Rightarrow> PhaseStatCall list \<times> StatDeltas" where
  "reportStats s0 =
     (let deltaProcessed = (itemsDeltaProcessed s0, bytesDeltaProcessed s0);
          (out1, s1) =
            (if fst deltaProcessed \<noteq> 0 \<or> snd deltaProcessed \<noteq> 0
             then ([CbUpdateDataProcessed (fst deltaProcessed) (snd deltaProcessed)],
                   updateDataProcessed (- fst deltaProcessed) (- snd deltaProcessed) s0)
             else ([], s0));
          deltaTotal = (itemsDeltaTotal s1, bytesDeltaTotal s1);
          (out2, s2) =
            (if fst deltaTotal \<noteq> 0 \<or> snd deltaTotal \<noteq> 0
             then ([CbUpdateDataTotal (fst deltaTotal) (snd deltaTotal)],
                   updateDataTotal (- fst deltaTotal) (- snd deltaTotal) s1)
             else ([], s1))
      in (out1 @ out2, s2))"

text \<open>
  The same function with the worker threads running beside it. Each of the two blocks of
  \<open>reportStats\<close> performs up to four atomic operations (two loads, two additions);
  \<open>w0\<close>, \<open>w1\<close>, \<open>w2\<close>, \<open>w3\<close> are the atomic additions that workers perform
  just before the first load, the second load, the first addition and the second addition.
  A store of zero in place of the addition of the negated value would lose \<open>w1\<close>,
  \<open>w2\<close> and \<open>w3\<close>.
\<close>

definition drainProcessedInterleaved ::
    "AtomicAdd list \<Rightarrow> AtomicAdd list \<Rightarrow> AtomicAdd list \<Rightarrow> AtomicAdd list \<Rightarrow>
     StatDeltas \<Rightarrow> PhaseStatCall list \<times> StatDeltas" where
  "drainProcessedInterleaved w0 w1 w2 w3 s =
     (let sa = atomicAdds w0 s;
          di = itemsDeltaProcessed sa;
          sb = atomicAdds w1 sa;
          db = bytesDeltaProcessed sb;
          sc = atomicAdds w2 sb
      in if di \<noteq> 0 \<or> db \<noteq> 0
         then (let sd = atomicAdds w3 (atomicAdd (AddItemsProcessed (- di)) sc)
               in ([CbUpdateDataProcessed di db], atomicAdd (AddBytesProcessed (- db)) sd))
         else ([], atomicAdds w3 sc))"

definition drainTotalInterleaved ::
    "AtomicAdd list \<Rightarrow> AtomicAdd list \<Rightarrow> AtomicAdd list \<Rightarrow> AtomicAdd list \<Rightarrow>
     StatDeltas \<Rightarrow> PhaseStatCall list \<times> StatDeltas" where
  "drainTotalInterleaved w0 w1 w2 w3 s =
     (let sa = atomicAdds w0 s;
          ti = itemsDeltaTotal sa;
          sb = atomicAdds w1 sa;
          tb = bytesDeltaTotal sb;
          sc = atomicAdds w2 sb
      in if ti \<noteq> 0 \<or> tb \<noteq> 0
         then (let sd = atomicAdds w3 (atomicAdd (AddItemsTotal (- ti)) sc)
               in ([CbUpdateDataTotal ti tb], atomicAdd (AddBytesTotal (- tb)) sd))
         else ([], atomicAdds w3 sc))"

text \<open>\<open>w k\<close> for \<open>k < 8\<close> is the interference before the main thread's \<open>k\<close>-th
  atomic operation, \<open>w 8\<close> the interference after the last one.\<close>

definition reportStatsInterleaved ::
    "(nat \<Rightarrow> AtomicAdd list) \<Rightarrow> StatDeltas \<Rightarrow> PhaseStatCall list \<times> StatDeltas" where
  "reportStatsInterleaved w s =
     (let (out1, s1) = drainProcessedInterleaved (w 0) (w 1) (w 2) (w 3) s;
          (out2, s2) = drainTotalInterleaved (w 4) (w 5) (w 6) (w 7) s1
      in (out1 @ out2, atomicAdds (w 8) s2))"

text \<open>Sums of what was posted and of what was forwarded, per counter.\<close>

fun postedBy :: "AtomicAdd \<Rightarrow> StatDeltas" where
  "postedBy a = atomicAdd a noDeltas"

definition addDeltas :: "StatDeltas \<Rightarrow> StatDeltas \<Rightarrow> StatDeltas" where
  "addDeltas a b =
     \<lparr>itemsDeltaProcessed = itemsDeltaProcessed a + itemsDeltaProcessed b,
      bytesDeltaProcessed = bytesDeltaProcessed a + bytesDeltaProcessed b,
      itemsDeltaTotal = itemsDeltaTotal a + itemsDeltaTotal b,
      bytesDeltaTotal = bytesDeltaTotal a + bytesDeltaTotal b\<rparr>"

fun forwardedBy :: "PhaseStatCall \<Rightarrow> StatDeltas" where
  "forwardedBy (CbUpdateDataProcessed i b) = updateDataProcessed i b noDeltas"
| "forwardedBy (CbUpdateDataTotal i b) = updateDataTotal i b noDeltas"

definition forwarded :: "PhaseStatCall list \<Rightarrow> StatDeltas" where
  "forwarded out = foldl (\<lambda>acc c. addDeltas acc (forwardedBy c)) noDeltas out"

fun postedItemsProcessed :: "WorkerCall list \<Rightarrow> 32 word" where
  "postedItemsProcessed [] = 0"
| "postedItemsProcessed (WorkerProcessed i b # cs) = i + postedItemsProcessed cs"
| "postedItemsProcessed (WorkerTotal i b # cs) = postedItemsProcessed cs"

fun postedBytesProcessed :: "WorkerCall list \<Rightarrow> 64 word" where
  "postedBytesProcessed [] = 0"
| "postedBytesProcessed (WorkerProcessed i b # cs) = b + postedBytesProcessed cs"
| "postedBytesProcessed (WorkerTotal i b # cs) = postedBytesProcessed cs"

fun postedItemsTotal :: "WorkerCall list \<Rightarrow> 32 word" where
  "postedItemsTotal [] = 0"
| "postedItemsTotal (WorkerProcessed i b # cs) = postedItemsTotal cs"
| "postedItemsTotal (WorkerTotal i b # cs) = i + postedItemsTotal cs"

fun postedBytesTotal :: "WorkerCall list \<Rightarrow> 64 word" where
  "postedBytesTotal [] = 0"
| "postedBytesTotal (WorkerProcessed i b # cs) = postedBytesTotal cs"
| "postedBytesTotal (WorkerTotal i b # cs) = b + postedBytesTotal cs"

text \<open>The sum of a list of atomic additions, as pending deltas.\<close>

definition posted :: "AtomicAdd list \<Rightarrow> StatDeltas" where
  "posted ops = atomicAdds ops noDeltas"


section \<open>ItemStatReporter (lines 291-343)\<close>

text \<open>
  The calls a reporter makes on its callback (the template parameter \<open>Callback\<close>), in
  the order made. \<open>itemsDelta\<close> is a C++ \<open>int\<close> and \<open>bytesDelta\<close> an \<open>int64_t\<close>;
  the reporter's own arithmetic on them is not atomic and its overflow is undefined in
  C++, so the accumulators are mathematical integers: the model describes the executions
  that C++ defines.
\<close>

datatype CallbackCall =
    UpdateDataProcessed int int
  | UpdateDataTotal int int
  | UpdateStatus string

record ItemStatReporter =
  itemsReported :: int
  bytesReported :: int
  itemsExpected :: int
  bytesExpected :: int
  exeptionCount :: int

text \<open>The constructor; \<open>uncaughtExceptions\<close> is what \<open>std::uncaught_exceptions()\<close>
  returns at construction.\<close>

definition newItemStatReporter :: "int \<Rightarrow> int \<Rightarrow> int \<Rightarrow> ItemStatReporter" where
  "newItemStatReporter itemsExp bytesExp uncaughtExceptions =
     \<lparr>itemsReported = 0, bytesReported = 0,
      itemsExpected = itemsExp, bytesExpected = bytesExp,
      exeptionCount = uncaughtExceptions\<rparr>"

definition reportDelta ::
    "int \<Rightarrow> int \<Rightarrow> ItemStatReporter \<Rightarrow> CallbackCall list \<times> ItemStatReporter" where
  "reportDelta itemsDelta bytesDelta r0 =
     (let out0 = [UpdateDataProcessed itemsDelta bytesDelta];
          r1 = r0\<lparr>itemsReported := itemsReported r0 + itemsDelta\<rparr>;
          r2 = r1\<lparr>bytesReported := bytesReported r1 + bytesDelta\<rparr>;
          (out1, r3) =
            (if itemsReported r2 > itemsExpected r2
             then ([UpdateDataTotal (itemsReported r2 - itemsExpected r2) 0],
                   r2\<lparr>itemsReported := itemsExpected r2\<rparr>)
             else ([], r2));
          (out2, r4) =
            (if bytesReported r3 > bytesExpected r3
             then ([UpdateDataTotal 0 (bytesReported r3 - bytesExpected r3)],
                   r3\<lparr>bytesReported := bytesExpected r3\<rparr>)
             else ([], r3))
      in (out0 @ out1 @ out2, r4))"

text \<open>The destructor; \<open>uncaughtExceptions\<close> is what \<open>std::uncaught_exceptions()\<close>
  returns when the scope is left.\<close>

definition destroyItemStatReporter :: "int \<Rightarrow> ItemStatReporter \<Rightarrow> CallbackCall list" where
  "destroyItemStatReporter uncaughtExceptions r =
     (let scopeFail = uncaughtExceptions > exeptionCount r
      in if scopeFail
         then [UpdateDataTotal (itemsReported r) (bytesReported r)]
         else [UpdateDataTotal (itemsReported r - itemsExpected r)
                               (bytesReported r - bytesExpected r)])"

text \<open>A sequence of \<open>reportDelta\<close> calls, and the whole life of a reporter: construction,
  the calls, destruction.\<close>

fun reportDeltas ::
    "(int \<times> int) list \<Rightarrow> ItemStatReporter \<Rightarrow> CallbackCall list \<times> ItemStatReporter" where
  "reportDeltas [] r = ([], r)"
| "reportDeltas ((itemsDelta, bytesDelta) # ds) r =
     (let (out, r') = reportDelta itemsDelta bytesDelta r;
          (outs, r'') = reportDeltas ds r'
      in (out @ outs, r''))"

definition itemScope :: "int \<Rightarrow> int \<Rightarrow> int \<Rightarrow> (int \<times> int) list \<Rightarrow> int \<Rightarrow> CallbackCall list" where
  "itemScope itemsExp bytesExp uncaughtAtEntry ds uncaughtAtExit =
     (let (out, r) = reportDeltas ds (newItemStatReporter itemsExp bytesExp uncaughtAtEntry)
      in out @ destroyItemStatReporter uncaughtAtExit r)"

text \<open>What a list of calls adds to the callback's total and processed statistics, and
  the cumulative amount a list of deltas reports.\<close>

fun totalOf :: "CallbackCall \<Rightarrow> int \<times> int" where
  "totalOf (UpdateDataTotal i b) = (i, b)"
| "totalOf (UpdateDataProcessed i b) = (0, 0)"
| "totalOf (UpdateStatus m) = (0, 0)"

fun processedOf :: "CallbackCall \<Rightarrow> int \<times> int" where
  "processedOf (UpdateDataProcessed i b) = (i, b)"
| "processedOf (UpdateDataTotal i b) = (0, 0)"
| "processedOf (UpdateStatus m) = (0, 0)"

definition netTotal :: "CallbackCall list \<Rightarrow> int \<times> int" where
  "netTotal out = (sum_list (map (\<lambda>c. fst (totalOf c)) out),
                   sum_list (map (\<lambda>c. snd (totalOf c)) out))"

definition netProcessed :: "CallbackCall list \<Rightarrow> int \<times> int" where
  "netProcessed out = (sum_list (map (\<lambda>c. fst (processedOf c)) out),
                       sum_list (map (\<lambda>c. snd (processedOf c)) out))"

definition cumulative :: "(int \<times> int) list \<Rightarrow> int \<times> int" where
  "cumulative ds = (sum_list (map fst ds), sum_list (map snd ds))"


section \<open>AsyncCallback: per-thread status registry (lines 132-156, 188-205, 239-264)\<close>

record ThreadStatus =
  threadId :: nat
  statusMsg :: string

text \<open>\<open>notifyTaskBegin\<close>: grow \<open>statusByPriority_\<close> to \<open>prio + 1\<close> buckets when it is
  shorter, then append an entry with an empty message to bucket \<open>prio\<close>.\<close>

definition notifyTaskBegin :: "nat \<Rightarrow> nat \<Rightarrow> ThreadStatus list list \<Rightarrow> ThreadStatus list list" where
  "notifyTaskBegin tid prio statusByPriority =
     (let resized = (if length statusByPriority < prio + 1
                     then statusByPriority @ replicate (prio + 1 - length statusByPriority) []
                     else statusByPriority)
      in resized[prio := resized ! prio @ [\<lparr>threadId = tid, statusMsg = []\<rparr>]])"

text \<open>The registry part of \<open>updateStatus\<close>: overwrite the message of the first entry of
  the thread (\<open>getThreadStatus\<close>); without an entry nothing changes.\<close>

fun setStatusIn :: "nat \<Rightarrow> string \<Rightarrow> ThreadStatus list \<Rightarrow> ThreadStatus list option" where
  "setStatusIn tid msg [] = None"
| "setStatusIn tid msg (ts # rest) =
     (if threadId ts = tid then Some (ts\<lparr>statusMsg := msg\<rparr> # rest)
      else map_option (\<lambda>rest'. ts # rest') (setStatusIn tid msg rest))"

fun setStatus :: "nat \<Rightarrow> string \<Rightarrow> ThreadStatus list list \<Rightarrow> ThreadStatus list list" where
  "setStatus tid msg [] = []"
| "setStatus tid msg (sbp # rest) =
     (case setStatusIn tid msg sbp of
        Some sbp' \<Rightarrow> sbp' # rest
      | None \<Rightarrow> sbp # setStatus tid msg rest)"

text \<open>\<open>getCurrentStatus\<close>. The first loop counts the non-empty buckets; the lambda
  returns the first non-empty message, scanning the buckets in order and each bucket in
  order. The macro \<open>_P\<close> (the localised singular/plural form with the number put in) is
  not part of the file and is the parameter \<open>translatePlural\<close>.\<close>

definition countParallelOps :: "ThreadStatus list list \<Rightarrow> nat" where
  "countParallelOps statusByPriority =
     foldl (\<lambda>parallelOpsTotal sbp. parallelOpsTotal + (if sbp = [] then 0 else 1))
       0 statusByPriority"

fun firstStatusIn :: "ThreadStatus list \<Rightarrow> string option" where
  "firstStatusIn [] = None"
| "firstStatusIn (ts # rest) =
     (if statusMsg ts \<noteq> [] then Some (statusMsg ts) else firstStatusIn rest)"

fun firstStatus :: "ThreadStatus list list \<Rightarrow> string" where
  "firstStatus [] = []"
| "firstStatus (sbp # rest) =
     (case firstStatusIn sbp of Some msg \<Rightarrow> msg | None \<Rightarrow> firstStatus rest)"

definition getCurrentStatus ::
    "(string \<Rightarrow> string \<Rightarrow> nat \<Rightarrow> string) \<Rightarrow> ThreadStatus list list \<Rightarrow> string" where
  "getCurrentStatus translatePlural statusByPriority =
     (let parallelOpsTotal = countParallelOps statusByPriority;
          msg = firstStatus statusByPriority
      in if parallelOpsTotal \<ge> 2
         then CHR ''['' # translatePlural ''1 thread'' ''%x threads'' parallelOpsTotal
                @ ''] '' @ msg
         else msg)"

text \<open>The specification's reading of the same function: the number of non-empty
  buckets, and the first non-empty message among all entries in bucket order.\<close>

definition parallelOpsSpec :: "ThreadStatus list list \<Rightarrow> nat" where
  "parallelOpsSpec statusByPriority = length (filter (\<lambda>sbp. sbp \<noteq> []) statusByPriority)"

definition firstNonEmptySpec :: "ThreadStatus list list \<Rightarrow> string" where
  "firstNonEmptySpec statusByPriority =
     (case find (\<lambda>ts. statusMsg ts \<noteq> []) (concat statusByPriority) of
        Some ts \<Rightarrow> statusMsg ts
      | None \<Rightarrow> [])"


section \<open>PercentStatReporter (lines 349-431)\<close>

text \<open>
  Times are nanoseconds: a \<open>steady_clock::time_point\<close> is its distance from the clock's
  epoch and the default-constructed one is 0. The class \<open>SpeedTest\<close> (speed\_test.h)
  is not part of the file: its four operations are the parameters \<open>ops\<close>, over any
  state type \<open>'sp\<close>, and its \<open>double\<close> results are read as real numbers. The constant
  \<open>UI_UPDATE_INTERVAL\<close> (process\_callback.h) is the parameter \<open>uiUpdateInterval\<close>, in
  milliseconds. \<open>formatPercent\<close> works on \<open>double\<close> and calls \<open>zen::printNumber\<close>;
  the text it yields from the bytes copied, the bytes expected and the measured speed is
  the parameter \<open>percentText\<close>.
\<close>

record 'sp SpeedTestOps =
  addSample :: "int \<Rightarrow> int \<Rightarrow> int \<Rightarrow> 'sp \<Rightarrow> 'sp"
  getRemainingSec :: "int \<Rightarrow> int \<Rightarrow> 'sp \<Rightarrow> real option"
  getBytesPerSec :: "'sp \<Rightarrow> real option"
  clear :: "'sp \<Rightarrow> 'sp"

definition STATUS_PERCENT_DELAY :: int where
  "STATUS_PERCENT_DELAY = 2 * 1000000000"

definition STATUS_PERCENT_MIN_DURATION :: real where
  "STATUS_PERCENT_MIN_DURATION = 3"

definition STATUS_PERCENT_SPEED_WINDOW :: int where
  "STATUS_PERCENT_SPEED_WINDOW = 10 * 1000000000"

record 'sp PercentStatReporter =
  showPercent :: bool
  msgPrefix :: string
  startTime :: int
  lastUpdate :: int
  speedTest :: 'sp
  statReporter :: ItemStatReporter

text \<open>The constructor: \<open>emptySpeedTest\<close> is \<open>SpeedTest(STATUS_PERCENT_SPEED_WINDOW)\<close>;
  the status message is passed on to the callback.\<close>

definition newPercentStatReporter ::
    "'sp \<Rightarrow> string \<Rightarrow> int \<Rightarrow> int \<Rightarrow> CallbackCall list \<times> 'sp PercentStatReporter" where
  "newPercentStatReporter emptySpeedTest statusText bytesExp uncaughtExceptions =
     ([UpdateStatus statusText],
      \<lparr>showPercent = False, msgPrefix = statusText @ ''... '',
       startTime = 0, lastUpdate = 0, speedTest = emptySpeedTest,
       statReporter = newItemStatReporter 1 bytesExp uncaughtExceptions\<rparr>)"

text \<open>\<open>PercentStatReporter::updateStatus(itemsDelta, bytesDelta)\<close>; \<open>now\<close> is what
  \<open>steady_clock::now()\<close> returns in the call.\<close>

definition percentUpdateStatus ::
    "'sp SpeedTestOps \<Rightarrow> int \<Rightarrow> (int \<Rightarrow> int \<Rightarrow> real option \<Rightarrow> string) \<Rightarrow> int \<Rightarrow> int \<Rightarrow> int \<Rightarrow>
     'sp PercentStatReporter \<Rightarrow> CallbackCall list \<times> 'sp PercentStatReporter" where
  "percentUpdateStatus ops uiUpdateInterval percentText now itemsDelta bytesDelta p0 =
     (let (out, sr) = reportDelta itemsDelta bytesDelta (statReporter p0);
          p1 = p0\<lparr>statReporter := sr\<rparr>
      in if now \<ge> lastUpdate p1 + (uiUpdateInterval div 2) * 1000000
         then
           (let p2 = p1\<lparr>lastUpdate := now\<rparr>;
                bytesCopied = bytesReported sr;
                bytesTotal = bytesExpected sr;
                p3 =
                  (if \<not> showPercent p2 \<and> bytesCopied > 0
                   then
                     (if startTime p2 = 0
                      then p2\<lparr>startTime := now,
                              speedTest := addSample ops 0 0 bytesCopied (speedTest p2)\<rparr>
                      else
                        (let elapsed = now - startTime p2
                         in if elapsed \<ge> STATUS_PERCENT_DELAY
                            then
                              (let st = addSample ops elapsed 0 bytesCopied (speedTest p2);
                                   p2' = p2\<lparr>speedTest := st\<rparr>
                               in case getRemainingSec ops 0 (bytesTotal - bytesCopied) st of
                                    Some remSecs \<Rightarrow>
                                      if remSecs > STATUS_PERCENT_MIN_DURATION
                                      then p2'\<lparr>showPercent := True, speedTest := clear ops st\<rparr>
                                      else p2'
                                  | None \<Rightarrow> p2')
                            else p2))
                   else p2)
            in if showPercent p3
               then
                 (let st = addSample ops (now - startTime p3) 0 bytesCopied (speedTest p3);
                      bps = getBytesPerSec ops st
                  in (out @ [UpdateStatus (msgPrefix p3 @ percentText bytesCopied bytesTotal bps)],
                      p3\<lparr>speedTest := st\<rparr>))
               else (out, p3))
         else (out, p1))"

text \<open>A sequence of calls, each with its clock reading.\<close>

fun percentUpdates ::
    "'sp SpeedTestOps \<Rightarrow> int \<Rightarrow> (int \<Rightarrow> int \<Rightarrow> real option \<Rightarrow> string) \<Rightarrow> (int \<times> int \<times> int) list \<Rightarrow>
     'sp PercentStatReporter \<Rightarrow> 'sp PercentStatReporter" where
  "percentUpdates ops uiUpdateInterval percentText [] p = p"
| "percentUpdates ops uiUpdateInterval percentText ((now, itemsDelta, bytesDelta) # rest) p =
     percentUpdates ops uiUpdateInterval percentText rest
       (snd (percentUpdateStatus ops uiUpdateInterval percentText now itemsDelta bytesDelta p))"

text \<open>
  Modelled from the spec: \<open>SpeedTest\<close> (speed\_test.h is not part of the file), the
  bytes per second estimator over a sliding window of the samples fed to it. A sample is
  (elapsed nanoseconds, items, bytes); samples older than the window before the newest
  one are dropped; the estimates compare the newest sample with the oldest one kept.
\<close>

definition windowAddSample :: "int \<Rightarrow> int \<Rightarrow> int \<Rightarrow> int \<Rightarrow> (int \<times> int \<times> int) list \<Rightarrow> (int \<times> int \<times> int) list" where
  "windowAddSample window elapsed items bytes samples =
     filter (\<lambda>(t, i, b). elapsed - window \<le> t) (samples @ [(elapsed, items, bytes)])"

definition windowRemainingSec :: "int \<Rightarrow> int \<Rightarrow> (int \<times> int \<times> int) list \<Rightarrow> real option" where
  "windowRemainingSec itemsRemaining bytesRemaining samples =
     (case samples of
        [] \<Rightarrow> None
      | (t0, i0, b0) # rest \<Rightarrow>
          (case last samples of (t1, i1, b1) \<Rightarrow>
             if b1 - b0 = 0 then None
             else Some (real_of_int bytesRemaining * (real_of_int (t1 - t0) / 1000000000)
                        / real_of_int (b1 - b0))))"

definition windowBytesPerSec :: "(int \<times> int \<times> int) list \<Rightarrow> real option" where
  "windowBytesPerSec samples =
     (case samples of
        [] \<Rightarrow> None
      | (t0, i0, b0) # rest \<Rightarrow>
          (case last samples of (t1, i1, b1) \<Rightarrow>
             if t1 - t0 = 0 then None
             else Some (real_of_int (b1 - b0) / (real_of_int (t1 - t0) / 1000000000))))"

definition windowSpeedTest :: "(int \<times> int \<times> int) list SpeedTestOps" where
  "windowSpeedTest =
     \<lparr>addSample = windowAddSample STATUS_PERCENT_SPEED_WINDOW,
      getRemainingSec = windowRemainingSec,
      getBytesPerSec = windowBytesPerSec,
      clear = (\<lambda>samples. [])\<rparr>"


text \<open>
  A transfer of 1000 bytes that stalls, on the estimator above with a UI interval of
  100 ms: the first byte arrives at 5 s on the clock, 599 more bytes by 7 s, and one more
  byte at 15 s.
\<close>

definition stalledStart :: "(int \<times> int \<times> int) list PercentStatReporter" where
  "stalledStart =
     snd (percentUpdateStatus windowSpeedTest 100 (\<lambda>bytesCopied bytesTotal bps. ''%'')
            5000000000 0 1 (snd (newPercentStatReporter [] ''Copying'' 1000 0)))"

definition stalledAtDelay :: "(int \<times> int \<times> int) list PercentStatReporter" where
  "stalledAtDelay =
     snd (percentUpdateStatus windowSpeedTest 100 (\<lambda>bytesCopied bytesTotal bps. ''%'')
            7000000000 0 599 stalledStart)"

definition stalledLater :: "(int \<times> int \<times> int) list PercentStatReporter" where
  "stalledLater =
     snd (percentUpdateStatus windowSpeedTest 100 (\<lambda>bytesCopied bytesTotal bps. ''%'')
            15000000000 0 1 stalledAtDelay)"


section \<open>tryReportingError (lines 437-457)\<close>

text \<open>
  \<open>PhaseCallback::Response\<close> and \<open>PhaseCallback::ErrorInfo\<close> (process\_callback.h) are
  used by the file and not declared in it; the fields are the three values of the braced
  initialiser: the message, the time and the retry number. \<open>retryNumber\<close> is a
  \<open>size_t\<close>: its type \<open>'n\<close> is below a word of the platform's width, \<open>'w word\<close>.
\<close>

datatype Response = ignore | retry

record 'n ErrorInfo =
  errorMsg :: string
  errorTime :: int
  retryNumber :: 'n

text \<open>
  What one call of \<open>cmd\<close> does: return, throw a \<open>zen::FileError\<close> (with its
  \<open>toString()\<close>), or throw anything else. What one call of \<open>cb.reportError\<close> does:
  answer, or throw. Both act on a state \<open>'st\<close> of the environment, as does reading the
  clock.
\<close>

datatype 'x CmdOutcome = Returned | ThrewFileError string | ThrewOther 'x

datatype 'x ReportOutcome = Answered Response | ReportThrew 'x

text \<open>The loop, from a given \<open>retryNumber\<close>. The result is \<open>None\<close> when the loop never
  ends, \<open>Inr\<close> the returned string, \<open>Inl\<close> the exception that leaves the function.\<close>

partial_function (option) tryReportingErrorFrom ::
    "('st \<Rightarrow> 'x CmdOutcome \<times> 'st) \<Rightarrow> ('st \<Rightarrow> int \<times> 'st) \<Rightarrow>
     ('w::len word ErrorInfo \<Rightarrow> 'st \<Rightarrow> 'x ReportOutcome \<times> 'st) \<Rightarrow>
     'w word \<Rightarrow> 'st \<Rightarrow> (('x + string) \<times> 'st) option" where
  "tryReportingErrorFrom cmd now reportError n s =
     (case cmd s of
        (Returned, s1) \<Rightarrow> Some (Inr [], s1)
      | (ThrewOther x, s1) \<Rightarrow> Some (Inl x, s1)
      | (ThrewFileError e, s1) \<Rightarrow>
          (case now s1 of
             (t, s2) \<Rightarrow>
               (case reportError \<lparr>errorMsg = e, errorTime = t, retryNumber = n\<rparr> s2 of
                  (ReportThrew x, s3) \<Rightarrow> Some (Inl x, s3)
                | (Answered ignore, s3) \<Rightarrow> Some (Inr e, s3)
                | (Answered retry, s3) \<Rightarrow>
                    tryReportingErrorFrom cmd now reportError (n + 1) s3)))"

definition tryReportingError ::
    "('st \<Rightarrow> 'x CmdOutcome \<times> 'st) \<Rightarrow> ('st \<Rightarrow> int \<times> 'st) \<Rightarrow>
     ('w::len word ErrorInfo \<Rightarrow> 'st \<Rightarrow> 'x ReportOutcome \<times> 'st) \<Rightarrow>
     'st \<Rightarrow> (('x + string) \<times> 'st) option" where
  "tryReportingError cmd now reportError s = tryReportingErrorFrom cmd now reportError 0 s"

text \<open>
  An environment that records what the wrapper does to it: the \<open>j\<close>-th call of the
  action has the outcome \<open>acts j\<close>, the \<open>j\<close>-th call of \<open>reportError\<close> the outcome
  \<open>resps j\<close>, the \<open>j\<close>-th reading of the clock gives \<open>clock j\<close>, and every call is
  appended to a log.
\<close>

datatype 'n RetryEvent = Invoked | Reported "'n ErrorInfo"

record 'n ScriptEnv =
  invocations :: nat
  reports :: nat
  clockReads :: nat
  eventLog :: "'n RetryEvent list"

definition freshEnv :: "'n ScriptEnv" where
  "freshEnv = \<lparr>invocations = 0, reports = 0, clockReads = 0, eventLog = []\<rparr>"

definition scriptedCmd :: "(nat \<Rightarrow> 'x CmdOutcome) \<Rightarrow> 'n ScriptEnv \<Rightarrow> 'x CmdOutcome \<times> 'n ScriptEnv" where
  "scriptedCmd acts s =
     (acts (invocations s),
      s\<lparr>invocations := Suc (invocations s), eventLog := eventLog s @ [Invoked]\<rparr>)"

definition scriptedNow :: "(nat \<Rightarrow> int) \<Rightarrow> 'n ScriptEnv \<Rightarrow> int \<times> 'n ScriptEnv" where
  "scriptedNow clock s = (clock (clockReads s), s\<lparr>clockReads := Suc (clockReads s)\<rparr>)"

definition scriptedReport ::
    "(nat \<Rightarrow> 'x ReportOutcome) \<Rightarrow> 'n ErrorInfo \<Rightarrow> 'n ScriptEnv \<Rightarrow> 'x ReportOutcome \<times> 'n ScriptEnv" where
  "scriptedReport resps info s =
     (resps (reports s),
      s\<lparr>reports := Suc (reports s), eventLog := eventLog s @ [Reported info]\<rparr>)"

text \<open>The log of \<open>k\<close> rounds that each fail with the message \<open>e j\<close> and are answered
  \<open>retry\<close>, and the environment after them.\<close>

definition retryRounds :: "(nat \<Rightarrow> string) \<Rightarrow> (nat \<Rightarrow> int) \<Rightarrow> nat \<Rightarrow> 'w::len word RetryEvent list" where
  "retryRounds e clock k =
     concat (map (\<lambda>j. [Invoked,
                        Reported \<lparr>errorMsg = e j, errorTime = clock j, retryNumber = of_nat j\<rparr>])
                 [0..<k])"

definition envAfter :: "nat \<Rightarrow> nat \<Rightarrow> 'n RetryEvent list \<Rightarrow> 'n ScriptEnv" where
  "envAfter invoked reported events =
     \<lparr>invocations = invoked, reports = reported, clockReads = reported, eventLog = events\<rparr>"


section \<open>massParallelExecute (lines 460-517)\<close>

record 'dev AbstractPath =
  afsDevice :: 'dev
  afsPath :: string

text \<open>\<open>perDeviceWorkload\<close> is a \<open>std::map\<close> from the device to the items on it: an
  association list kept in the order of the keys. \<open>perDeviceWorkload[k].push_back(v)\<close>
  creates the entry when the key is new.\<close>

fun pushBackAt :: "'dev::linorder \<Rightarrow> 'a \<Rightarrow> ('dev \<times> 'a list) list \<Rightarrow> ('dev \<times> 'a list) list" where
  "pushBackAt k v [] = [(k, [v])]"
| "pushBackAt k v ((k', vs) # rest) =
     (if k = k' then (k', vs @ [v]) # rest
      else if k < k' then (k, [v]) # (k', vs) # rest
      else (k', vs) # pushBackAt k v rest)"

definition perDeviceWorkload ::
    "('dev::linorder AbstractPath \<times> 'task) list \<Rightarrow> ('dev \<times> ('dev AbstractPath \<times> 'task) list) list" where
  "perDeviceWorkload workload =
     foldl (\<lambda>m item. pushBackAt (afsDevice (fst item)) item m) [] workload"

text \<open>A worker pool as the loop creates it: one thread, a name made of the group name
  and the device's display path, the status priority (the number of pools created before
  it), and the tasks handed to it.\<close>

record ('dev, 'task) ThreadGroup =
  groupThreads :: nat
  groupName :: string
  groupDevice :: 'dev
  statusPrio :: nat
  groupTasks :: "('dev AbstractPath \<times> 'task) list"

fun makeThreadGroups ::
    "('dev \<Rightarrow> string) \<Rightarrow> string \<Rightarrow> nat \<Rightarrow> ('dev \<times> ('dev AbstractPath \<times> 'task) list) list \<Rightarrow>
     ('dev, 'task) ThreadGroup list" where
  "makeThreadGroups getDisplayPath threadGroupName created [] = []"
| "makeThreadGroups getDisplayPath threadGroupName created ((dev, wl) # rest) =
     \<lparr>groupThreads = 1,
      groupName = threadGroupName @ '' '' @ getDisplayPath dev,
      groupDevice = dev,
      statusPrio = created,
      groupTasks = wl\<rparr>
     # makeThreadGroups getDisplayPath threadGroupName (Suc created) rest"

text \<open>
  \<open>massParallelExecute\<close>. The result is the worker pools constructed and the calls made
  on the external phase callback. What the pools and \<open>waitUntilDone\<close> do when there is
  work runs on several threads and is the parameter \<open>runGroups\<close>: the calls that reach
  the callback while the given pools run.
\<close>

definition massParallelExecute ::
    "(('dev::linorder, 'task) ThreadGroup list \<Rightarrow> 'call list) \<Rightarrow> ('dev \<Rightarrow> string) \<Rightarrow>
     ('dev AbstractPath \<times> 'task) list \<Rightarrow> string \<Rightarrow>
     ('dev, 'task) ThreadGroup list \<times> 'call list" where
  "massParallelExecute runGroups getDisplayPath workload threadGroupName =
     (let pdw = perDeviceWorkload workload
      in if pdw = [] then ([], [])
         else (let deviceThreadGroups = makeThreadGroups getDisplayPath threadGroupName 0 pdw
               in (deviceThreadGroups, runGroups deviceThreadGroups)))"


section \<open>AsyncCallback: request channel (lines 49-130, 176-182, 266-274)\<close>

text \<open>
  The slots guarded by \<open>lockRequest_\<close>, and where each thread stands. Every transition
  below is the code that one thread runs while it holds the lock, from the return of one
  wait on a condition variable to the next wait or to the unlock; the mutex makes these
  sections atomic, so an execution is a sequence of them. The waits carry predicates, so a
  thread leaves a wait only in a state where its predicate holds.
\<close>

datatype 'info WorkerPc =
    Idle
  | AwaitingResponse 'info
  | Stopped

datatype MainPc = Waiting | Finished | Failed

record 'info Channel =
  errorRequest :: "'info option"
  errorResponse :: "Response option"
  logInfoRequest :: "string option"
  finishNowRequest :: bool
  workerPc :: "nat \<Rightarrow> 'info WorkerPc"
  mainPc :: MainPc
  delivered :: "(nat \<times> Response) list"

definition initialChannel :: "'info Channel" where
  "initialChannel =
     \<lparr>errorRequest = None, errorResponse = None, logInfoRequest = None,
      finishNowRequest = False, workerPc = (\<lambda>t. Idle), mainPc = Waiting, delivered = []\<rparr>"

text \<open>
  \<^item> \<open>PostError t info\<close>: worker \<open>t\<close>, in \<open>reportError\<close>, leaves the wait for
    \<open>!errorRequest_ && !errorResponse_\<close> and stores its request (lines 75-78); it then
    waits for the response.
  \<^item> \<open>TakeResponse t\<close>: worker \<open>t\<close> leaves the wait for \<open>errorResponse_\<close>, reads it, clears
    both slots and returns the value read (lines 80-89).
  \<^item> \<open>PostLog t msg\<close>: worker \<open>t\<close>, in \<open>logInfo\<close>, leaves the wait for
    \<open>!logInfoRequest_\<close> and stores the message (lines 56-58).
  \<^item> \<open>Interrupt t\<close>: an interruptible wait of worker \<open>t\<close> throws \<open>ThreadStopRequest\<close>;
    the slots stay as they are.
  \<^item> \<open>MainWake answer logReturns\<close>: the main thread, in \<open>waitUntilDone\<close>, leaves
    \<open>wait_until\<close> with its predicate true and runs the body of the inner loop once
    (lines 106-123); \<open>answer\<close> is what \<open>cb.reportError\<close> returns (\<open>None\<close>: it throws),
    \<open>logReturns\<close> whether \<open>cb.logInfo\<close> returns.
  \<^item> \<open>NotifyAllDone\<close>: \<open>notifyAllDone\<close> sets the flag.
\<close>

datatype 'info ChannelEvent =
    PostError nat 'info
  | TakeResponse nat
  | PostLog nat string
  | Interrupt nat
  | MainWake "Response option" bool
  | NotifyAllDone

text \<open>The step of an event; \<open>None\<close> when the thread is not at that point or its wait
  predicate does not hold.\<close>

fun step :: "'info ChannelEvent \<Rightarrow> 'info Channel \<Rightarrow> 'info Channel option" where
  "step (PostError t info) s =
     (case workerPc s t of
        Idle \<Rightarrow>
          if errorRequest s = None \<and> errorResponse s = None
          then Some (s\<lparr>errorRequest := Some info,
                        workerPc := (workerPc s)(t := AwaitingResponse info)\<rparr>)
          else None
      | AwaitingResponse i \<Rightarrow> None
      | Stopped \<Rightarrow> None)"
| "step (TakeResponse t) s =
     (case workerPc s t of
        AwaitingResponse i \<Rightarrow>
          (case errorResponse s of
             Some rv \<Rightarrow>
               Some (s\<lparr>errorRequest := None, errorResponse := None,
                        workerPc := (workerPc s)(t := Idle),
                        delivered := delivered s @ [(t, rv)]\<rparr>)
           | None \<Rightarrow> None)
      | Idle \<Rightarrow> None
      | Stopped \<Rightarrow> None)"
| "step (PostLog t msg) s =
     (case workerPc s t of
        Idle \<Rightarrow>
          if logInfoRequest s = None then Some (s\<lparr>logInfoRequest := Some msg\<rparr>) else None
      | AwaitingResponse i \<Rightarrow> None
      | Stopped \<Rightarrow> None)"
| "step (Interrupt t) s =
     (case workerPc s t of
        Stopped \<Rightarrow> None
      | Idle \<Rightarrow> Some (s\<lparr>workerPc := (workerPc s)(t := Stopped)\<rparr>)
      | AwaitingResponse i \<Rightarrow> Some (s\<lparr>workerPc := (workerPc s)(t := Stopped)\<rparr>))"
| "step (MainWake answer logReturns) s =
     (if mainPc s = Waiting \<and>
         ((errorRequest s \<noteq> None \<and> errorResponse s = None) \<or> logInfoRequest s \<noteq> None
          \<or> finishNowRequest s)
      then
        (case (if errorRequest s \<noteq> None \<and> errorResponse s = None
               then (case answer of
                       Some r \<Rightarrow> Inr (s\<lparr>errorResponse := Some r\<rparr>)
                     | None \<Rightarrow> Inl (s\<lparr>mainPc := Failed\<rparr>))
               else Inr s) of
           Inl thrown \<Rightarrow> Some thrown
         | Inr s1 \<Rightarrow>
             (case (if logInfoRequest s1 \<noteq> None
                    then (if logReturns then Inr (s1\<lparr>logInfoRequest := None\<rparr>)
                          else Inl (s1\<lparr>mainPc := Failed\<rparr>))
                    else Inr s1) of
                Inl thrown \<Rightarrow> Some thrown
              | Inr s2 \<Rightarrow>
                  Some (if finishNowRequest s2 then s2\<lparr>mainPc := Finished\<rparr> else s2)))
      else None)"
| "step NotifyAllDone s = Some (s\<lparr>finishNowRequest := True\<rparr>)"

fun run :: "'info ChannelEvent list \<Rightarrow> 'info Channel \<Rightarrow> 'info Channel option" where
  "run [] s = Some s"
| "run (ev # evs) s = (case step ev s of None \<Rightarrow> None | Some s' \<Rightarrow> run evs s')"

text \<open>The invariant of the error slots: a worker that has posted and not yet read finds
  its own request in the slot, there is at most one such worker, and a response is only
  present beside a request.\<close>

definition slotInvariant :: "'info Channel \<Rightarrow> bool" where
  "slotInvariant s =
     ((\<forall>t i. workerPc s t = AwaitingResponse i \<longrightarrow> errorRequest s = Some i) \<and>
      (\<forall>t t' i i'. workerPc s t = AwaitingResponse i \<and> workerPc s t' = AwaitingResponse i'
                     \<longrightarrow> t = t') \<and>
      (errorResponse s \<noteq> None \<longrightarrow> errorRequest s \<noteq> None))"


section \<open>Theorems: statistics drain\<close>

lemma atomicAdds_Nil: "atomicAdds [] s = s"
  by (simp add: atomicAdds_def)

lemma atomicAdds_Cons: "atomicAdds (a # ops) s = atomicAdds ops (atomicAdd a s)"
  by (simp add: atomicAdds_def)

lemma atomicAdds_append: "atomicAdds (xs @ ys) s = atomicAdds ys (atomicAdds xs s)"
  by (simp add: atomicAdds_def)

lemma addDeltas_noDeltas: "addDeltas s noDeltas = s" "addDeltas noDeltas s = s"
  by (simp_all add: addDeltas_def noDeltas_def)

lemma addDeltas_assoc: "addDeltas (addDeltas a b) c = addDeltas a (addDeltas b c)"
  by (simp add: addDeltas_def add.assoc)

lemma addDeltas_commute: "addDeltas a b = addDeltas b a"
  by (simp add: addDeltas_def add.commute)

lemma atomicAdd_addDeltas: "atomicAdd a s = addDeltas s (postedBy a)"
  by (cases a) (simp_all add: addDeltas_def noDeltas_def)

lemma atomicAdds_addDeltas: "atomicAdds ops s = addDeltas s (atomicAdds ops noDeltas)"
proof (induction ops arbitrary: s)
  case Nil
  show ?case by (simp add: atomicAdds_Nil addDeltas_noDeltas)
next
  case (Cons a ops)
  have "atomicAdds (a # ops) s = addDeltas (atomicAdd a s) (atomicAdds ops noDeltas)"
    using Cons.IH [of "atomicAdd a s"] by (simp add: atomicAdds_Cons)
  also have "\<dots> = addDeltas s (addDeltas (postedBy a) (atomicAdds ops noDeltas))"
    by (simp add: atomicAdd_addDeltas [of a s] addDeltas_assoc)
  also have "addDeltas (postedBy a) (atomicAdds ops noDeltas) = atomicAdds (a # ops) noDeltas"
    using Cons.IH [of "atomicAdd a noDeltas"] by (simp add: atomicAdds_Cons)
  finally show ?case .
qed

lemma workerCalls_Cons: "workerCalls (c # cs) s = workerCalls cs (workerCall c s)"
  by (simp add: workerCalls_def)

lemma workerCalls_eq:
  "workerCalls cs s =
     \<lparr>itemsDeltaProcessed = itemsDeltaProcessed s + postedItemsProcessed cs,
      bytesDeltaProcessed = bytesDeltaProcessed s + postedBytesProcessed cs,
      itemsDeltaTotal = itemsDeltaTotal s + postedItemsTotal cs,
      bytesDeltaTotal = bytesDeltaTotal s + postedBytesTotal cs\<rparr>"
proof (induction cs arbitrary: s)
  case Nil
  show ?case by (simp add: workerCalls_def)
next
  case (Cons c cs)
  show ?case
    by (cases c)
      (simp_all add: workerCalls_Cons Cons.IH updateDataProcessed_def updateDataTotal_def
        add.assoc)
qed

lemma reportStats_drains: "snd (reportStats s) = noDeltas"
  by (simp add: reportStats_def updateDataProcessed_def updateDataTotal_def noDeltas_def
      Let_def split_beta)

lemma reportStats_forwards:
  "fst (reportStats s) =
     (if itemsDeltaProcessed s \<noteq> 0 \<or> bytesDeltaProcessed s \<noteq> 0
      then [CbUpdateDataProcessed (itemsDeltaProcessed s) (bytesDeltaProcessed s)] else []) @
     (if itemsDeltaTotal s \<noteq> 0 \<or> bytesDeltaTotal s \<noteq> 0
      then [CbUpdateDataTotal (itemsDeltaTotal s) (bytesDeltaTotal s)] else [])"
  by (simp add: reportStats_def updateDataProcessed_def updateDataTotal_def Let_def split_beta)

lemma reportStatsInterleaved_quiet: "reportStatsInterleaved (\<lambda>_. []) s = reportStats s"
  by (simp add: reportStatsInterleaved_def drainProcessedInterleaved_def
      drainTotalInterleaved_def reportStats_def atomicAdds_Nil
      updateDataProcessed_def updateDataTotal_def Let_def split_beta)

lemma atomicAdds_posted: "atomicAdds ops s = addDeltas s (posted ops)"
  unfolding posted_def by (rule atomicAdds_addDeltas)

lemma posted_Nil: "posted [] = noDeltas"
  by (simp add: posted_def atomicAdds_Nil)

lemma posted_append: "posted (xs @ ys) = addDeltas (posted xs) (posted ys)"
  by (simp add: posted_def atomicAdds_append atomicAdds_addDeltas [of ys "atomicAdds xs noDeltas"])

lemma upt_9: "[0..<9] = [0, 1, 2, 3, 4, 5, 6, 7, 8]"
  by (simp add: upt_rec)

lemma forwarded_Nil: "forwarded [] = noDeltas"
  by (simp add: forwarded_def)

lemma forwarded_single: "forwarded [c] = forwardedBy c"
  by (simp add: forwarded_def addDeltas_noDeltas)

lemma forwarded_snoc: "forwarded (out @ [c]) = addDeltas (forwarded out) (forwardedBy c)"
  by (simp add: forwarded_def)

lemma forwarded_append: "forwarded (xs @ ys) = addDeltas (forwarded xs) (forwarded ys)"
proof (induction ys rule: rev_induct)
  case Nil
  show ?case by (simp add: forwarded_Nil addDeltas_noDeltas)
next
  case (snoc y ys)
  have "forwarded (xs @ ys @ [y]) = addDeltas (forwarded (xs @ ys)) (forwardedBy y)"
    using forwarded_snoc [of "xs @ ys" y] by simp
  then show ?case
    by (simp add: snoc.IH forwarded_snoc addDeltas_assoc)
qed

lemma drainProcessedInterleaved_conserves:
  "addDeltas (forwarded (fst (drainProcessedInterleaved w0 w1 w2 w3 s)))
       (snd (drainProcessedInterleaved w0 w1 w2 w3 s)) =
     atomicAdds (w0 @ w1 @ w2 @ w3) s"
  by (simp add: drainProcessedInterleaved_def Let_def atomicAdds_posted
      posted_append forwarded_Nil forwarded_single addDeltas_def noDeltas_def
      updateDataProcessed_def add.assoc)

lemma drainTotalInterleaved_conserves:
  "addDeltas (forwarded (fst (drainTotalInterleaved w0 w1 w2 w3 s)))
       (snd (drainTotalInterleaved w0 w1 w2 w3 s)) =
     atomicAdds (w0 @ w1 @ w2 @ w3) s"
  by (simp add: drainTotalInterleaved_def Let_def atomicAdds_posted
      posted_append forwarded_Nil forwarded_single addDeltas_def noDeltas_def
      updateDataTotal_def add.assoc)

lemma addDeltas_left_commute: "addDeltas a (addDeltas b c) = addDeltas b (addDeltas a c)"
  by (simp add: addDeltas_def add.left_commute)

lemma reportStatsInterleaved_conserves:
  "addDeltas (forwarded (fst (reportStatsInterleaved w s))) (snd (reportStatsInterleaved w s)) =
     atomicAdds (concat (map w [0..<9])) s"
proof -
  obtain out1 s1 where p1: "drainProcessedInterleaved (w 0) (w 1) (w 2) (w 3) s = (out1, s1)"
    by (cases "drainProcessedInterleaved (w 0) (w 1) (w 2) (w 3) s")
  obtain out2 s2 where p2: "drainTotalInterleaved (w 4) (w 5) (w 6) (w 7) s1 = (out2, s2)"
    by (cases "drainTotalInterleaved (w 4) (w 5) (w 6) (w 7) s1")
  have c1: "addDeltas (forwarded out1) s1 = atomicAdds (w 0 @ w 1 @ w 2 @ w 3) s"
    using drainProcessedInterleaved_conserves [of "w 0" "w 1" "w 2" "w 3" s]
    unfolding p1 fst_conv snd_conv .
  have c2: "addDeltas (forwarded out2) s2 = atomicAdds (w 4 @ w 5 @ w 6 @ w 7) s1"
    using drainTotalInterleaved_conserves [of "w 4" "w 5" "w 6" "w 7" s1]
    unfolding p2 fst_conv snd_conv .
  have r: "reportStatsInterleaved w s = (out1 @ out2, atomicAdds (w 8) s2)"
    unfolding reportStatsInterleaved_def p1 by (simp add: p2)
  have "addDeltas (forwarded (out1 @ out2)) (atomicAdds (w 8) s2) =
        addDeltas (forwarded out1) (addDeltas (addDeltas (forwarded out2) s2) (posted (w 8)))"
    by (simp add: forwarded_append atomicAdds_posted addDeltas_assoc)
  also have "\<dots> = addDeltas (forwarded out1)
                 (addDeltas s1 (addDeltas (posted (w 4 @ w 5 @ w 6 @ w 7)) (posted (w 8))))"
    by (simp add: c2 atomicAdds_posted addDeltas_assoc)
  also have "\<dots> = addDeltas (addDeltas (forwarded out1) s1)
                 (posted ((w 4 @ w 5 @ w 6 @ w 7) @ w 8))"
    by (simp only: posted_append addDeltas_assoc)
  also have "\<dots> = addDeltas s (addDeltas (posted (w 0 @ w 1 @ w 2 @ w 3))
                 (posted ((w 4 @ w 5 @ w 6 @ w 7) @ w 8)))"
    by (simp only: c1 atomicAdds_posted addDeltas_assoc)
  also have "\<dots> = atomicAdds (concat (map w [0..<9])) s"
    by (simp add: upt_9 atomicAdds_posted posted_append addDeltas_assoc)
  finally show ?thesis by (simp add: r)
qed


text \<open>
  Claim C1 (counter drain conservation). For every sequence \<open>cs\<close> of worker-side
  \<open>updateDataProcessed\<close>/\<open>updateDataTotal\<close> calls on a fresh accumulator, one
  \<open>reportStats\<close> forwards to the external callback exactly the sums posted (one call
  per pair of counters, omitted when both sums are zero) and leaves all four pending
  counters at zero; \<open>updateDataProcessed 3 100\<close> then \<open>updateDataProcessed 2 50\<close>
  gives exactly one external \<open>updateDataProcessed 5 150\<close>. The drain reads and then
  adds the negation: with worker additions interleaved at any of its atomic steps, what
  is forwarded plus what stays pending is what the counters held plus everything the
  workers added, so no concurrent increment is lost.
\<close>

theorem counter_drain_conservation:
  "reportStats (workerCalls cs noDeltas) =
     ((if postedItemsProcessed cs \<noteq> 0 \<or> postedBytesProcessed cs \<noteq> 0
       then [CbUpdateDataProcessed (postedItemsProcessed cs) (postedBytesProcessed cs)]
       else []) @
      (if postedItemsTotal cs \<noteq> 0 \<or> postedBytesTotal cs \<noteq> 0
       then [CbUpdateDataTotal (postedItemsTotal cs) (postedBytesTotal cs)]
       else []),
      noDeltas)
   \<and> reportStats (workerCalls [WorkerProcessed 3 100, WorkerProcessed 2 50] noDeltas) =
       ([CbUpdateDataProcessed 5 150], noDeltas)
   \<and> reportStatsInterleaved (\<lambda>_. []) s = reportStats s
   \<and> addDeltas (forwarded (fst (reportStatsInterleaved w s)))
         (snd (reportStatsInterleaved w s)) =
       atomicAdds (concat (map w [0..<9])) s"
proof -
  have general: "reportStats (workerCalls ds noDeltas) =
     ((if postedItemsProcessed ds \<noteq> 0 \<or> postedBytesProcessed ds \<noteq> 0
       then [CbUpdateDataProcessed (postedItemsProcessed ds) (postedBytesProcessed ds)]
       else []) @
      (if postedItemsTotal ds \<noteq> 0 \<or> postedBytesTotal ds \<noteq> 0
       then [CbUpdateDataTotal (postedItemsTotal ds) (postedBytesTotal ds)]
       else []),
      noDeltas)" for ds
  proof (rule prod_eqI)
    show "fst (reportStats (workerCalls ds noDeltas)) = fst
     ((if postedItemsProcessed ds \<noteq> 0 \<or> postedBytesProcessed ds \<noteq> 0
       then [CbUpdateDataProcessed (postedItemsProcessed ds) (postedBytesProcessed ds)]
       else []) @
      (if postedItemsTotal ds \<noteq> 0 \<or> postedBytesTotal ds \<noteq> 0
       then [CbUpdateDataTotal (postedItemsTotal ds) (postedBytesTotal ds)]
       else []),
      noDeltas)"
      by (simp add: reportStats_forwards workerCalls_eq noDeltas_def)
    show "snd (reportStats (workerCalls ds noDeltas)) = snd
     ((if postedItemsProcessed ds \<noteq> 0 \<or> postedBytesProcessed ds \<noteq> 0
       then [CbUpdateDataProcessed (postedItemsProcessed ds) (postedBytesProcessed ds)]
       else []) @
      (if postedItemsTotal ds \<noteq> 0 \<or> postedBytesTotal ds \<noteq> 0
       then [CbUpdateDataTotal (postedItemsTotal ds) (postedBytesTotal ds)]
       else []),
      noDeltas)"
      by (simp add: reportStats_drains)
  qed
  have s1: "reportStats (workerCalls [WorkerProcessed 3 100, WorkerProcessed 2 50] noDeltas) =
       ([CbUpdateDataProcessed 5 150], noDeltas)"
    by (simp add: general)
  show ?thesis
    using general [of cs] s1 reportStatsInterleaved_quiet [of s]
      reportStatsInterleaved_conserves [of w s]
    by blast
qed

theorem counter_drain_conservation_witness:
  "reportStats (workerCalls [WorkerProcessed 3 100, WorkerTotal 1 7, WorkerProcessed 2 50] noDeltas) =
     ([CbUpdateDataProcessed 5 150, CbUpdateDataTotal 1 7], noDeltas)
   \<and> snd (reportStatsInterleaved
          ((\<lambda>_. [])(1 := [AddItemsProcessed 4], 3 := [AddBytesProcessed 9]))
          (workerCalls [WorkerProcessed 3 100] noDeltas)) =
       workerCalls [WorkerProcessed 4 9] noDeltas"
proof -
  have a: "reportStats (workerCalls [WorkerProcessed 3 100, WorkerTotal 1 7, WorkerProcessed 2 50] noDeltas) =
     ([CbUpdateDataProcessed 5 150, CbUpdateDataTotal 1 7], noDeltas)"
    using counter_drain_conservation
      [of "[WorkerProcessed 3 100, WorkerTotal 1 7, WorkerProcessed 2 50]"]
    by simp
  have b: "snd (reportStatsInterleaved
          ((\<lambda>_. [])(1 := [AddItemsProcessed 4], 3 := [AddBytesProcessed 9]))
          (workerCalls [WorkerProcessed 3 100] noDeltas)) =
       workerCalls [WorkerProcessed 4 9] noDeltas"
    by (simp add: reportStatsInterleaved_def drainProcessedInterleaved_def
        drainTotalInterleaved_def atomicAdds_def workerCalls_def updateDataProcessed_def
        noDeltas_def Let_def)
  show ?thesis using a b by blast
qed


section \<open>Theorems: ItemStatReporter and the status registry\<close>

lemma netTotal_Nil: "netTotal [] = (0, 0)"
  by (simp add: netTotal_def)

lemma netTotal_append:
  "netTotal (xs @ ys) = (fst (netTotal xs) + fst (netTotal ys), snd (netTotal xs) + snd (netTotal ys))"
  by (simp add: netTotal_def)

lemma netProcessed_Nil: "netProcessed [] = (0, 0)"
  by (simp add: netProcessed_def)

lemma netProcessed_append:
  "netProcessed (xs @ ys) =
     (fst (netProcessed xs) + fst (netProcessed ys), snd (netProcessed xs) + snd (netProcessed ys))"
  by (simp add: netProcessed_def)

lemma reportDelta_fields:
  "itemsExpected (snd (reportDelta i b r)) = itemsExpected r"
  "bytesExpected (snd (reportDelta i b r)) = bytesExpected r"
  "exeptionCount (snd (reportDelta i b r)) = exeptionCount r"
  by (simp_all add: reportDelta_def Let_def split_beta)

lemma reportDelta_reported:
  "itemsReported (snd (reportDelta i b r)) = min (itemsReported r + i) (itemsExpected r)"
  "bytesReported (snd (reportDelta i b r)) = min (bytesReported r + b) (bytesExpected r)"
  by (simp_all add: reportDelta_def Let_def split_beta)

lemma reportDelta_netTotal:
  "netTotal (fst (reportDelta i b r)) =
     (itemsReported r + i - itemsReported (snd (reportDelta i b r)),
      bytesReported r + b - bytesReported (snd (reportDelta i b r)))"
  by (simp add: reportDelta_def Let_def split_beta netTotal_def)

lemma reportDelta_netProcessed: "netProcessed (fst (reportDelta i b r)) = (i, b)"
  by (simp add: reportDelta_def Let_def split_beta netProcessed_def)

lemma reportDeltas_Cons:
  "reportDeltas (d # ds) r =
     (fst (reportDelta (fst d) (snd d) r) @ fst (reportDeltas ds (snd (reportDelta (fst d) (snd d) r))),
      snd (reportDeltas ds (snd (reportDelta (fst d) (snd d) r))))"
  by (cases d) (simp add: split_beta)

lemma reportDeltas_fields:
  "itemsExpected (snd (reportDeltas ds r)) = itemsExpected r \<and>
   bytesExpected (snd (reportDeltas ds r)) = bytesExpected r \<and>
   exeptionCount (snd (reportDeltas ds r)) = exeptionCount r"
proof (induction ds arbitrary: r)
  case Nil
  show ?case by simp
next
  case (Cons d ds)
  show ?case
    using Cons.IH [where r = "snd (reportDelta (fst d) (snd d) r)"]
    by (simp add: reportDeltas_Cons reportDelta_fields)
qed

lemma reportDeltas_netTotal:
  "netTotal (fst (reportDeltas ds r)) =
     (itemsReported r + fst (cumulative ds) - itemsReported (snd (reportDeltas ds r)),
      bytesReported r + snd (cumulative ds) - bytesReported (snd (reportDeltas ds r)))"
proof (induction ds arbitrary: r)
  case Nil
  show ?case by (simp add: netTotal_Nil cumulative_def)
next
  case (Cons d ds)
  show ?case
    using Cons.IH [where r = "snd (reportDelta (fst d) (snd d) r)"]
    by (simp add: reportDeltas_Cons netTotal_append reportDelta_netTotal cumulative_def)
qed

lemma reportDeltas_netProcessed: "netProcessed (fst (reportDeltas ds r)) = cumulative ds"
proof (induction ds arbitrary: r)
  case Nil
  show ?case by (simp add: netProcessed_Nil cumulative_def)
next
  case (Cons d ds)
  show ?case
    using Cons.IH [where r = "snd (reportDelta (fst d) (snd d) r)"]
    by (simp add: reportDeltas_Cons netProcessed_append reportDelta_netProcessed cumulative_def)
qed

lemma itemScope_unfold:
  "itemScope ie be u0 ds u1 =
     fst (reportDeltas ds (newItemStatReporter ie be u0)) @
     destroyItemStatReporter u1 (snd (reportDeltas ds (newItemStatReporter ie be u0)))"
  by (simp add: itemScope_def split_beta)

lemma netProcessed_destroy: "netProcessed (destroyItemStatReporter u r) = (0, 0)"
  by (simp add: destroyItemStatReporter_def netProcessed_def)

lemma netTotal_destroy_normal:
  "u \<le> exeptionCount r \<Longrightarrow>
   netTotal (destroyItemStatReporter u r) =
     (itemsReported r - itemsExpected r, bytesReported r - bytesExpected r)"
  by (simp add: destroyItemStatReporter_def netTotal_def)

lemma netTotal_destroy_fail:
  "exeptionCount r < u \<Longrightarrow>
   netTotal (destroyItemStatReporter u r) = (itemsReported r, bytesReported r)"
  by (simp add: destroyItemStatReporter_def netTotal_def)

lemma itemScope_normal_netTotal:
  assumes "u1 \<le> u0"
  shows "netTotal (itemScope ie be u0 ds u1) =
           (fst (cumulative ds) - ie, snd (cumulative ds) - be)"
proof -
  let ?start = "newItemStatReporter ie be u0"
  let ?final = "snd (reportDeltas ds ?start)"
  have f: "itemsExpected ?final = ie" "bytesExpected ?final = be" "exeptionCount ?final = u0"
    using reportDeltas_fields [where ds = ds and r = ?start] by (simp_all add: newItemStatReporter_def)
  have d: "netTotal (destroyItemStatReporter u1 ?final) =
             (itemsReported ?final - ie, bytesReported ?final - be)"
    using netTotal_destroy_normal [where u = u1 and r = ?final] assms f by simp
  have t: "netTotal (fst (reportDeltas ds ?start)) =
             (fst (cumulative ds) - itemsReported ?final, snd (cumulative ds) - bytesReported ?final)"
    using reportDeltas_netTotal [where ds = ds and r = ?start] by (simp add: newItemStatReporter_def)
  show ?thesis
    by (simp add: itemScope_unfold netTotal_append d t)
qed

lemma itemScope_fail_netTotal:
  assumes "u0 < u1"
  shows "netTotal (itemScope ie be u0 ds u1) = cumulative ds"
proof -
  let ?start = "newItemStatReporter ie be u0"
  let ?final = "snd (reportDeltas ds ?start)"
  have f: "exeptionCount ?final = u0"
    using reportDeltas_fields [where ds = ds and r = ?start] by (simp add: newItemStatReporter_def)
  have d: "netTotal (destroyItemStatReporter u1 ?final) = (itemsReported ?final, bytesReported ?final)"
    using netTotal_destroy_fail [where u = u1 and r = ?final] assms f by simp
  have t: "netTotal (fst (reportDeltas ds ?start)) =
             (fst (cumulative ds) - itemsReported ?final, snd (cumulative ds) - bytesReported ?final)"
    using reportDeltas_netTotal [where ds = ds and r = ?start] by (simp add: newItemStatReporter_def)
  show ?thesis
    by (simp add: itemScope_unfold netTotal_append d t)
qed

lemma itemScope_netProcessed: "netProcessed (itemScope ie be u0 ds u1) = cumulative ds"
  by (simp add: itemScope_unfold netProcessed_append reportDeltas_netProcessed
      netProcessed_destroy)

lemma overshoot_scope:
  "itemScope 1 100 0 [(1, 120)] 0 =
     [UpdateDataProcessed 1 120, UpdateDataTotal 0 20, UpdateDataTotal 0 0]"
  by (simp add: itemScope_def reportDelta_def newItemStatReporter_def
      destroyItemStatReporter_def Let_def)


text \<open>
  Claim C2, as stated, fails: with \<open>itemsExpected = 1\<close>, \<open>bytesExpected = 100\<close> and one
  \<open>reportDelta(1, 120)\<close> before a normal exit, the calls are
  \<open>updateDataProcessed(1, 120)\<close>, \<open>updateDataTotal(0, 20)\<close> and, at scope exit,
  \<open>updateDataTotal(0, 0)\<close>: what the reporter adds to the total is (0, 20), which is
  neither the expected (1, 100) nor a net change of 0 bytes.
\<close>

theorem normal_exit_net_total_counterexample:
  "netTotal (itemScope 1 100 0 [(1, 120)] 0) \<noteq> (1, 100) \<and>
   snd (netTotal (itemScope 1 100 0 [(1, 120)] 0)) \<noteq> 0"
  by (simp add: overshoot_scope netTotal_def)

text \<open>
  Claim C2, amended (normal-exit reconciliation). For every reporter constructed with
  expected \<open>(ie, be)\<close> whose \<open>reportDelta\<close> calls report a cumulative \<open>(i, b)\<close> before
  the scope exits normally (the uncaught-exception count has not grown), the net amount
  the reporter adds to the callback's total, overshoot additions and scope-exit
  correction together, is \<open>i - ie\<close> items and \<open>b - be\<close> bytes, and the net amount it
  adds to processed is \<open>(i, b)\<close>: a total that held the expected amounts beforehand ends
  up holding what was reported. With \<open>bytesExpected = 100\<close> and 120 bytes reported, 20
  is added to the total during reporting, the scope-exit correction is 0, the net change
  of the total is 20 and the net processed is 120.
\<close>

theorem normal_exit_reconciliation:
  assumes "uncaughtAtExit \<le> uncaughtAtEntry"
  shows "netTotal (itemScope itemsExp bytesExp uncaughtAtEntry ds uncaughtAtExit) =
           (fst (cumulative ds) - itemsExp, snd (cumulative ds) - bytesExp)
         \<and> netProcessed (itemScope itemsExp bytesExp uncaughtAtEntry ds uncaughtAtExit) =
           cumulative ds
         \<and> itemScope 1 100 0 [(1, 120)] 0 =
           [UpdateDataProcessed 1 120, UpdateDataTotal 0 20, UpdateDataTotal 0 0]
         \<and> netTotal (itemScope 1 100 0 [(1, 120)] 0) = (0, 20)
         \<and> netProcessed (itemScope 1 100 0 [(1, 120)] 0) = (1, 120)"
  using itemScope_normal_netTotal [OF assms] itemScope_netProcessed
  by (simp add: overshoot_scope netTotal_def netProcessed_def)

theorem normal_exit_reconciliation_witness:
  "itemScope 1 100 0 [(1, 120)] 0 =
     [UpdateDataProcessed 1 120, UpdateDataTotal 0 20, UpdateDataTotal 0 0]
   \<and> netTotal (itemScope 1 100 0 [(1, 120)] 0) = (0, 20)
   \<and> netProcessed (itemScope 1 100 0 [(1, 120)] 0) = (1, 120)"
proof -
  have h: "(0::int) \<le> 0" by simp
  show ?thesis
    using normal_exit_reconciliation [OF h, of 1 100 "[(1, 120)]"]
    by (simp add: overshoot_scope cumulative_def)
qed

text \<open>
  Claim C3 (abnormal-exit reconciliation). For every reporter constructed with expected
  \<open>(ie, be)\<close> whose \<open>reportDelta\<close> calls report a cumulative \<open>(i, b)\<close> before the scope
  exits with more uncaught exceptions than at construction, the scope-exit action is one
  \<open>updateDataTotal\<close> of the reported accumulators, the net amount the reporter adds to the
  total is \<open>(i, b)\<close>, and with the expected amounts already in the total the net
  contribution is \<open>ie + i\<close> items and \<open>be + b\<close> bytes.
\<close>

theorem abnormal_exit_reconciliation:
  assumes "uncaughtAtEntry < uncaughtAtExit"
  shows "destroyItemStatReporter uncaughtAtExit
           (snd (reportDeltas ds (newItemStatReporter itemsExp bytesExp uncaughtAtEntry))) =
           [UpdateDataTotal
              (itemsReported (snd (reportDeltas ds
                 (newItemStatReporter itemsExp bytesExp uncaughtAtEntry))))
              (bytesReported (snd (reportDeltas ds
                 (newItemStatReporter itemsExp bytesExp uncaughtAtEntry))))]
         \<and> netTotal (itemScope itemsExp bytesExp uncaughtAtEntry ds uncaughtAtExit) =
           cumulative ds
         \<and> (itemsExp + fst (netTotal (itemScope itemsExp bytesExp uncaughtAtEntry ds uncaughtAtExit)),
            bytesExp + snd (netTotal (itemScope itemsExp bytesExp uncaughtAtEntry ds uncaughtAtExit))) =
           (itemsExp + fst (cumulative ds), bytesExp + snd (cumulative ds))"
proof -
  let ?final = "snd (reportDeltas ds (newItemStatReporter itemsExp bytesExp uncaughtAtEntry))"
  have "exeptionCount ?final = uncaughtAtEntry"
    using reportDeltas_fields
      [where ds = ds and r = "newItemStatReporter itemsExp bytesExp uncaughtAtEntry"]
    by (simp add: newItemStatReporter_def)
  then have "destroyItemStatReporter uncaughtAtExit ?final =
      [UpdateDataTotal (itemsReported ?final) (bytesReported ?final)]"
    using assms by (simp add: destroyItemStatReporter_def)
  then show ?thesis
    using itemScope_fail_netTotal [OF assms] by simp
qed

theorem abnormal_exit_reconciliation_witness:
  "itemScope 1 100 0 [(0, 30), (0, 30)] 1 =
     [UpdateDataProcessed 0 30, UpdateDataProcessed 0 30, UpdateDataTotal 0 60]
   \<and> netTotal (itemScope 1 100 0 [(0, 30), (0, 30)] 1) = (0, 60)
   \<and> netTotal (itemScope 1 100 0 [(1, 120)] 1) = (1, 120)"
proof -
  have h: "(0::int) < 1" by simp
  have s: "itemScope 1 100 0 [(0, 30), (0, 30)] 1 =
     [UpdateDataProcessed 0 30, UpdateDataProcessed 0 30, UpdateDataTotal 0 60]"
    by (simp add: itemScope_def reportDelta_def newItemStatReporter_def
        destroyItemStatReporter_def Let_def)
  show ?thesis
    using abnormal_exit_reconciliation [OF h, of "[(0, 30), (0, 30)]" 1 100]
      abnormal_exit_reconciliation [OF h, of "[(1, 120)]" 1 100]
    by (simp add: s cumulative_def)
qed

lemma reportDelta_clamped:
  "itemsReported (snd (reportDelta i b r)) \<le> itemsExpected (snd (reportDelta i b r)) \<and>
   bytesReported (snd (reportDelta i b r)) \<le> bytesExpected (snd (reportDelta i b r))"
  by (simp add: reportDelta_fields reportDelta_reported)

lemma reportDeltas_clamped:
  "ds \<noteq> [] \<Longrightarrow>
   itemsReported (snd (reportDeltas ds r)) \<le> itemsExpected (snd (reportDeltas ds r)) \<and>
   bytesReported (snd (reportDeltas ds r)) \<le> bytesExpected (snd (reportDeltas ds r))"
proof (induction ds arbitrary: r)
  case Nil
  then show ?case by simp
next
  case (Cons d ds)
  show ?case
  proof (cases "ds = []")
    case True
    then show ?thesis
      using reportDelta_clamped [of "fst d" "snd d" r] by (simp add: reportDeltas_Cons)
  next
    case False
    then show ?thesis
      using Cons.IH [where r = "snd (reportDelta (fst d) (snd d) r)"]
      by (simp add: reportDeltas_Cons)
  qed
qed

lemma reportDelta_calls:
  "fst (reportDelta itemsDelta bytesDelta r) =
     UpdateDataProcessed itemsDelta bytesDelta #
     (if itemsExpected r < itemsReported r + itemsDelta
      then [UpdateDataTotal (itemsReported r + itemsDelta - itemsExpected r) 0] else []) @
     (if bytesExpected r < bytesReported r + bytesDelta
      then [UpdateDataTotal 0 (bytesReported r + bytesDelta - bytesExpected r)] else [])"
  by (simp add: reportDelta_def Let_def split_beta)

lemma reportDelta_growth:
  "netTotal (fst (reportDelta itemsDelta bytesDelta r)) =
     (max 0 (itemsReported r + itemsDelta - itemsExpected r),
      max 0 (bytesReported r + bytesDelta - bytesExpected r))"
  by (simp add: reportDelta_calls netTotal_def max_def)

lemma reportDeltas_growth_nonneg:
  "0 \<le> fst (netTotal (fst (reportDeltas ds r))) \<and> 0 \<le> snd (netTotal (fst (reportDeltas ds r)))"
proof (induction ds arbitrary: r)
  case Nil
  show ?case by (simp add: netTotal_Nil)
next
  case (Cons d ds)
  show ?case
    using Cons.IH [where r = "snd (reportDelta (fst d) (snd d) r)"]
    by (simp add: reportDeltas_Cons netTotal_append reportDelta_growth)
qed

text \<open>
  Claim C9 (clamp invariant). After every \<open>reportDelta\<close> call, from any reporter state,
  \<open>itemsReported \<le> itemsExpected\<close> and \<open>bytesReported \<le> bytesExpected\<close>; so the
  normal-exit correction \<open>updateDataTotal(itemsReported - itemsExpected,
  bytesReported - bytesExpected)\<close> made after it passes no positive delta. The same
  holds after any non-empty sequence of \<open>reportDelta\<close> calls. The growth of the workload
  is emitted by \<open>reportDelta\<close> itself: the call forwards the delta to
  \<open>updateDataProcessed\<close> and then adds to the total exactly the amount by which the
  accumulator would exceed the expected value, items first, keeping the accumulator at the
  smaller of the two; over a sequence of calls what was added to the total is what was
  reported minus what the accumulators kept, never negative, and the normal-exit
  correction is the kept amount minus the expected one.
\<close>

theorem clamp_invariant:
  "itemsReported (snd (reportDelta itemsDelta bytesDelta r)) \<le>
     itemsExpected (snd (reportDelta itemsDelta bytesDelta r))
   \<and> bytesReported (snd (reportDelta itemsDelta bytesDelta r)) \<le>
     bytesExpected (snd (reportDelta itemsDelta bytesDelta r))
   \<and> (uncaughtAtExit \<le> exeptionCount r \<longrightarrow>
        (\<exists>i b. destroyItemStatReporter uncaughtAtExit (snd (reportDelta itemsDelta bytesDelta r)) =
                 [UpdateDataTotal i b] \<and> i \<le> 0 \<and> b \<le> 0))
   \<and> (ds \<noteq> [] \<and> uncaughtAtExit \<le> exeptionCount r \<longrightarrow>
        itemsReported (snd (reportDeltas ds r)) \<le> itemsExpected (snd (reportDeltas ds r)) \<and>
        bytesReported (snd (reportDeltas ds r)) \<le> bytesExpected (snd (reportDeltas ds r)) \<and>
        (\<exists>i b. destroyItemStatReporter uncaughtAtExit (snd (reportDeltas ds r)) =
                 [UpdateDataTotal i b] \<and> i \<le> 0 \<and> b \<le> 0))
   \<and> fst (reportDelta itemsDelta bytesDelta r) =
       UpdateDataProcessed itemsDelta bytesDelta #
       (if itemsExpected r < itemsReported r + itemsDelta
        then [UpdateDataTotal (itemsReported r + itemsDelta - itemsExpected r) 0] else []) @
       (if bytesExpected r < bytesReported r + bytesDelta
        then [UpdateDataTotal 0 (bytesReported r + bytesDelta - bytesExpected r)] else [])
   \<and> itemsReported (snd (reportDelta itemsDelta bytesDelta r)) =
       min (itemsReported r + itemsDelta) (itemsExpected r)
   \<and> bytesReported (snd (reportDelta itemsDelta bytesDelta r)) =
       min (bytesReported r + bytesDelta) (bytesExpected r)
   \<and> netTotal (fst (reportDelta itemsDelta bytesDelta r)) =
       (max 0 (itemsReported r + itemsDelta - itemsExpected r),
        max 0 (bytesReported r + bytesDelta - bytesExpected r))
   \<and> netTotal (fst (reportDeltas ds r)) =
       (itemsReported r + fst (cumulative ds) - itemsReported (snd (reportDeltas ds r)),
        bytesReported r + snd (cumulative ds) - bytesReported (snd (reportDeltas ds r)))
   \<and> 0 \<le> fst (netTotal (fst (reportDeltas ds r)))
   \<and> 0 \<le> snd (netTotal (fst (reportDeltas ds r)))
   \<and> (uncaughtAtExit \<le> exeptionCount r \<longrightarrow>
        destroyItemStatReporter uncaughtAtExit (snd (reportDeltas ds r)) =
          [UpdateDataTotal
             (itemsReported (snd (reportDeltas ds r)) - itemsExpected r)
             (bytesReported (snd (reportDeltas ds r)) - bytesExpected r)])"
proof -
  have one: "itemsReported (snd (reportDelta itemsDelta bytesDelta r)) \<le>
               itemsExpected (snd (reportDelta itemsDelta bytesDelta r))
             \<and> bytesReported (snd (reportDelta itemsDelta bytesDelta r)) \<le>
               bytesExpected (snd (reportDelta itemsDelta bytesDelta r))"
    by (rule reportDelta_clamped)
  have exit_one: "\<exists>i b. destroyItemStatReporter uncaughtAtExit
                     (snd (reportDelta itemsDelta bytesDelta r)) = [UpdateDataTotal i b]
                   \<and> i \<le> 0 \<and> b \<le> 0"
    if "uncaughtAtExit \<le> exeptionCount r"
    using that one by (simp add: destroyItemStatReporter_def reportDelta_fields)
  have e: "exeptionCount (snd (reportDeltas ds r)) = exeptionCount r"
          "itemsExpected (snd (reportDeltas ds r)) = itemsExpected r"
          "bytesExpected (snd (reportDeltas ds r)) = bytesExpected r"
    using reportDeltas_fields [where ds = ds and r = r] by simp_all
  have many: "itemsReported (snd (reportDeltas ds r)) \<le> itemsExpected (snd (reportDeltas ds r)) \<and>
        bytesReported (snd (reportDeltas ds r)) \<le> bytesExpected (snd (reportDeltas ds r)) \<and>
        (\<exists>i b. destroyItemStatReporter uncaughtAtExit (snd (reportDeltas ds r)) =
                 [UpdateDataTotal i b] \<and> i \<le> 0 \<and> b \<le> 0)"
    if "ds \<noteq> []" and "uncaughtAtExit \<le> exeptionCount r"
  proof -
    have c: "itemsReported (snd (reportDeltas ds r)) \<le> itemsExpected (snd (reportDeltas ds r)) \<and>
        bytesReported (snd (reportDeltas ds r)) \<le> bytesExpected (snd (reportDeltas ds r))"
      using reportDeltas_clamped [OF that(1)] .
    show ?thesis
      using c e(1) that(2) by (simp add: destroyItemStatReporter_def)
  qed
  have calls: "fst (reportDelta itemsDelta bytesDelta r) =
       UpdateDataProcessed itemsDelta bytesDelta #
       (if itemsExpected r < itemsReported r + itemsDelta
        then [UpdateDataTotal (itemsReported r + itemsDelta - itemsExpected r) 0] else []) @
       (if bytesExpected r < bytesReported r + bytesDelta
        then [UpdateDataTotal 0 (bytesReported r + bytesDelta - bytesExpected r)] else [])"
    by (rule reportDelta_calls)
  have kept: "itemsReported (snd (reportDelta itemsDelta bytesDelta r)) =
       min (itemsReported r + itemsDelta) (itemsExpected r)"
     "bytesReported (snd (reportDelta itemsDelta bytesDelta r)) =
       min (bytesReported r + bytesDelta) (bytesExpected r)"
    by (rule reportDelta_reported)+
  have growth: "netTotal (fst (reportDelta itemsDelta bytesDelta r)) =
       (max 0 (itemsReported r + itemsDelta - itemsExpected r),
        max 0 (bytesReported r + bytesDelta - bytesExpected r))"
    by (rule reportDelta_growth)
  have seq: "netTotal (fst (reportDeltas ds r)) =
       (itemsReported r + fst (cumulative ds) - itemsReported (snd (reportDeltas ds r)),
        bytesReported r + snd (cumulative ds) - bytesReported (snd (reportDeltas ds r)))"
    by (rule reportDeltas_netTotal)
  have nonneg: "0 \<le> fst (netTotal (fst (reportDeltas ds r)))"
               "0 \<le> snd (netTotal (fst (reportDeltas ds r)))"
    using reportDeltas_growth_nonneg [of ds r] by simp_all
  have exit_exact: "destroyItemStatReporter uncaughtAtExit (snd (reportDeltas ds r)) =
          [UpdateDataTotal
             (itemsReported (snd (reportDeltas ds r)) - itemsExpected r)
             (bytesReported (snd (reportDeltas ds r)) - bytesExpected r)]"
    if "uncaughtAtExit \<le> exeptionCount r"
    using that e by (simp add: destroyItemStatReporter_def)
  show ?thesis
    using one exit_one many calls kept growth seq nonneg exit_exact by blast
qed

theorem clamp_invariant_witness:
  "fst (reportDelta 1 120 (newItemStatReporter 1 100 0)) =
     [UpdateDataProcessed 1 120, UpdateDataTotal 0 20]
   \<and> itemsReported (snd (reportDelta 1 120 (newItemStatReporter 1 100 0))) = 1
   \<and> bytesReported (snd (reportDelta 1 120 (newItemStatReporter 1 100 0))) = 100
   \<and> destroyItemStatReporter 0 (snd (reportDelta 1 120 (newItemStatReporter 1 100 0))) =
       [UpdateDataTotal 0 0]
   \<and> destroyItemStatReporter 0 (snd (reportDeltas [(0, 30), (0, 30)] (newItemStatReporter 1 100 0))) =
       [UpdateDataTotal (- 1) (- 40)]"
proof -
  have a: "itemsReported (snd (reportDelta 1 120 (newItemStatReporter 1 100 0))) = 1
   \<and> bytesReported (snd (reportDelta 1 120 (newItemStatReporter 1 100 0))) = 100
   \<and> destroyItemStatReporter 0 (snd (reportDelta 1 120 (newItemStatReporter 1 100 0))) =
       [UpdateDataTotal 0 0]
   \<and> destroyItemStatReporter 0 (snd (reportDeltas [(0, 30), (0, 30)] (newItemStatReporter 1 100 0))) =
       [UpdateDataTotal (- 1) (- 40)]"
    by (simp add: reportDelta_def newItemStatReporter_def destroyItemStatReporter_def Let_def)
  have h: "[(0::int, 30::int), (0, 30)] \<noteq> [] \<and>
        (0::int) \<le> exeptionCount (newItemStatReporter 1 100 0)"
    by (simp add: newItemStatReporter_def)
  have th: "fst (reportDelta 1 120 (newItemStatReporter 1 100 0)) =
       UpdateDataProcessed 1 120 #
       (if itemsExpected (newItemStatReporter 1 100 0) <
           itemsReported (newItemStatReporter 1 100 0) + 1
        then [UpdateDataTotal (itemsReported (newItemStatReporter 1 100 0) + 1 -
                               itemsExpected (newItemStatReporter 1 100 0)) 0] else []) @
       (if bytesExpected (newItemStatReporter 1 100 0) <
           bytesReported (newItemStatReporter 1 100 0) + 120
        then [UpdateDataTotal 0 (bytesReported (newItemStatReporter 1 100 0) + 120 -
                                 bytesExpected (newItemStatReporter 1 100 0))] else [])
     \<and> (\<exists>i b. destroyItemStatReporter 0
       (snd (reportDeltas [(0, 30), (0, 30)] (newItemStatReporter 1 100 0))) =
          [UpdateDataTotal i b] \<and> i \<le> 0 \<and> b \<le> 0)"
    using clamp_invariant
      [of 1 120 "newItemStatReporter 1 100 0" 0 "[(0, 30), (0, 30)]"] h
    by blast
  have c: "fst (reportDelta 1 120 (newItemStatReporter 1 100 0)) =
     [UpdateDataProcessed 1 120, UpdateDataTotal 0 20]"
    using th by (simp add: newItemStatReporter_def)
  show ?thesis using a c by blast
qed

lemma countParallelOps_foldl:
  "foldl (\<lambda>parallelOpsTotal sbp. parallelOpsTotal + (if sbp = [] then 0 else 1)) n sbps =
     n + length (filter (\<lambda>sbp. sbp \<noteq> []) sbps)"
  by (induction sbps arbitrary: n) auto

lemma countParallelOps_spec: "countParallelOps sbps = parallelOpsSpec sbps"
  by (simp add: countParallelOps_def parallelOpsSpec_def countParallelOps_foldl)

lemma firstStatusIn_find:
  "firstStatusIn sbp = map_option statusMsg (find (\<lambda>ts. statusMsg ts \<noteq> []) sbp)"
  by (induction sbp) auto

lemma find_append_case:
  "find P (xs @ ys) = (case find P xs of Some x \<Rightarrow> Some x | None \<Rightarrow> find P ys)"
  by (induction xs) auto

lemma firstStatus_spec: "firstStatus sbps = firstNonEmptySpec sbps"
proof (induction sbps)
  case Nil
  show ?case by (simp add: firstNonEmptySpec_def)
next
  case (Cons sbp sbps)
  then show ?case
    by (simp add: firstNonEmptySpec_def firstStatusIn_find find_append_case
        split: option.splits)
qed

text \<open>
  Claim C6 (representative status selection). For every registry state,
  \<open>getCurrentStatus\<close> counts the non-empty buckets and takes the first non-empty status
  message in bucket order (the empty string when there is none); when the count is at
  least 2 the result is \<open>[\<close>, the localised thread count, \<open>] \<close> and the message,
  otherwise the message alone.
\<close>

theorem representative_status:
  "getCurrentStatus translatePlural statusByPriority =
     (if 2 \<le> parallelOpsSpec statusByPriority
      then ''['' @ translatePlural ''1 thread'' ''%x threads'' (parallelOpsSpec statusByPriority)
             @ ''] '' @ firstNonEmptySpec statusByPriority
      else firstNonEmptySpec statusByPriority)"
  by (simp add: getCurrentStatus_def countParallelOps_spec firstStatus_spec)

theorem representative_status_witness:
  "getCurrentStatus (\<lambda>singular plural n. if n = 1 then singular else plural)
     (setStatus 8 ''Copying'' (notifyTaskBegin 8 2 (notifyTaskBegin 7 0 []))) =
     ''[%x threads] Copying''
   \<and> getCurrentStatus (\<lambda>singular plural n. if n = 1 then singular else plural)
     (setStatus 8 ''Copying'' (notifyTaskBegin 8 2 [])) = ''Copying''"
proof -
  have r: "setStatus 8 ''Copying'' (notifyTaskBegin 8 2 (notifyTaskBegin 7 0 [])) =
      [[\<lparr>threadId = 7, statusMsg = []\<rparr>], [], [\<lparr>threadId = 8, statusMsg = ''Copying''\<rparr>]]"
    by (simp add: notifyTaskBegin_def numeral_2_eq_2 numeral_3_eq_3)
  have q: "setStatus 8 ''Copying'' (notifyTaskBegin 8 2 []) =
      [[], [], [\<lparr>threadId = 8, statusMsg = ''Copying''\<rparr>]]"
    by (simp add: notifyTaskBegin_def numeral_2_eq_2 numeral_3_eq_3)
  show ?thesis
    unfolding representative_status r q
    by (simp add: parallelOpsSpec_def firstNonEmptySpec_def)
qed

lemma firstStatusIn_all_empty:
  "\<forall>ts \<in> set sbp. statusMsg ts = [] \<Longrightarrow> firstStatusIn sbp = None"
  by (induction sbp) auto

lemma firstStatus_all_empty:
  "\<forall>sbp \<in> set sbps. \<forall>ts \<in> set sbp. statusMsg ts = [] \<Longrightarrow> firstStatus sbps = []"
  by (induction sbps) (auto simp: firstStatusIn_all_empty)

text \<open>
  Claim C10 (prefix on empty). When two or more buckets are non-empty and every
  registered status message is the empty string, \<open>getCurrentStatus\<close> returns the
  thread-count marker followed by nothing, which is not the empty string.
\<close>

theorem prefix_on_empty:
  assumes "2 \<le> length (filter (\<lambda>sbp. sbp \<noteq> []) statusByPriority)"
      and "\<forall>sbp \<in> set statusByPriority. \<forall>ts \<in> set sbp. statusMsg ts = []"
  shows "getCurrentStatus translatePlural statusByPriority =
           ''['' @ translatePlural ''1 thread'' ''%x threads''
                    (length (filter (\<lambda>sbp. sbp \<noteq> []) statusByPriority)) @ ''] ''
         \<and> getCurrentStatus translatePlural statusByPriority \<noteq> []"
  using assms
  by (simp add: getCurrentStatus_def countParallelOps_spec parallelOpsSpec_def
      firstStatus_all_empty)

theorem prefix_on_empty_witness:
  "getCurrentStatus (\<lambda>singular plural n. if n = 1 then singular else plural)
     (notifyTaskBegin 8 1 (notifyTaskBegin 7 0 [])) = ''[%x threads] ''"
proof -
  have r: "notifyTaskBegin 8 1 (notifyTaskBegin 7 0 []) =
      [[\<lparr>threadId = 7, statusMsg = []\<rparr>], [\<lparr>threadId = 8, statusMsg = []\<rparr>]]"
    by (simp add: notifyTaskBegin_def numeral_2_eq_2)
  have h1: "2 \<le> length (filter (\<lambda>sbp. sbp \<noteq> [])
      [[\<lparr>threadId = 7, statusMsg = []\<rparr>], [\<lparr>threadId = 8, statusMsg = []\<rparr>]])"
    by simp
  have h2: "\<forall>sbp \<in> set [[\<lparr>threadId = 7, statusMsg = []\<rparr>], [\<lparr>threadId = 8, statusMsg = []\<rparr>]].
      \<forall>ts \<in> set sbp. statusMsg ts = []"
    by simp
  show ?thesis
    unfolding r
    using prefix_on_empty [OF h1 h2, of "\<lambda>singular plural n. if n = 1 then singular else plural"]
    by simp
qed


section \<open>Theorems: PercentStatReporter and massParallelExecute\<close>

lemma showPercent_after:
  "showPercent (snd (percentUpdateStatus ops ui pt now di db p)) =
     (showPercent p \<or>
      (lastUpdate p + (ui div 2) * 1000000 \<le> now \<and>
       0 < bytesReported (snd (reportDelta di db (statReporter p))) \<and>
       startTime p \<noteq> 0 \<and>
       STATUS_PERCENT_DELAY \<le> now - startTime p \<and>
       (\<exists>remSecs.
          getRemainingSec ops 0
            (bytesExpected (snd (reportDelta di db (statReporter p))) -
             bytesReported (snd (reportDelta di db (statReporter p))))
            (addSample ops (now - startTime p) 0
               (bytesReported (snd (reportDelta di db (statReporter p)))) (speedTest p)) =
            Some remSecs \<and>
          STATUS_PERCENT_MIN_DURATION < remSecs)))"
  by (auto simp add: percentUpdateStatus_def Let_def split_beta split: option.splits)

lemmas percent_scenario_defs =
  newPercentStatReporter_def newItemStatReporter_def percentUpdateStatus_def reportDelta_def
  Let_def windowSpeedTest_def windowAddSample_def windowRemainingSec_def windowBytesPerSec_def
  STATUS_PERCENT_SPEED_WINDOW_def STATUS_PERCENT_DELAY_def STATUS_PERCENT_MIN_DURATION_def

lemma stalledStart_eq:
  "stalledStart =
     \<lparr>showPercent = False, msgPrefix = ''Copying... '', startTime = 5000000000,
      lastUpdate = 5000000000, speedTest = [(0, 0, 1)],
      statReporter = \<lparr>itemsReported = 0, bytesReported = 1, itemsExpected = 1,
                        bytesExpected = 1000, exeptionCount = 0\<rparr>\<rparr>"
  by (simp add: stalledStart_def percent_scenario_defs)

lemma stalledAtDelay_eq:
  "stalledAtDelay =
     \<lparr>showPercent = False, msgPrefix = ''Copying... '', startTime = 5000000000,
      lastUpdate = 7000000000, speedTest = [(0, 0, 1), (2000000000, 0, 600)],
      statReporter = \<lparr>itemsReported = 0, bytesReported = 600, itemsExpected = 1,
                        bytesExpected = 1000, exeptionCount = 0\<rparr>\<rparr>"
  by (simp add: stalledAtDelay_def stalledStart_eq percent_scenario_defs)

lemma stalledLater_eq:
  "stalledLater =
     \<lparr>showPercent = True, msgPrefix = ''Copying... '', startTime = 5000000000,
      lastUpdate = 15000000000, speedTest = [(10000000000, 0, 601)],
      statReporter = \<lparr>itemsReported = 0, bytesReported = 601, itemsExpected = 1,
                        bytesExpected = 1000, exeptionCount = 0\<rparr>\<rparr>"
  by (simp add: stalledLater_def stalledAtDelay_eq percent_scenario_defs)

text \<open>
  Claim C5, as stated, fails. In the stalled transfer the first evaluation after
  \<open>STATUS_PERCENT_DELAY\<close> (at 7 s, two seconds after the start) estimates 800/599
  seconds remaining, below \<open>STATUS_PERCENT_MIN_DURATION\<close>, and \<open>showPercent\<close> stays
  false; the call at 15 s evaluates again, estimates more than 3 seconds, and latches
  \<open>showPercent\<close>.
\<close>

theorem percent_suppression_counterexample:
  "getRemainingSec windowSpeedTest 0 (1000 - 600) (speedTest stalledAtDelay) = Some (800 / 599)
   \<and> (800 / 599 :: real) < STATUS_PERCENT_MIN_DURATION
   \<and> \<not> showPercent stalledAtDelay
   \<and> showPercent stalledLater"
  by (simp add: stalledAtDelay_eq stalledLater_eq windowSpeedTest_def windowRemainingSec_def
      STATUS_PERCENT_MIN_DURATION_def)

lemma showPercent_stays:
  "showPercent p \<Longrightarrow> showPercent (percentUpdates ops ui pt calls p)"
proof (induction calls arbitrary: p)
  case Nil
  then show ?case by simp
next
  case (Cons c calls)
  obtain now di db where c: "c = (now, di, db)" by (cases c)
  have "showPercent (snd (percentUpdateStatus ops ui pt now di db p))"
    using Cons.prems by (simp add: showPercent_after)
  then show ?case
    using Cons.IH by (simp add: c)
qed

text \<open>
  Claim C5, amended (percent display latch). \<open>showPercent\<close> is true after a call of
  \<open>updateStatus(itemsDelta, bytesDelta)\<close> exactly when it was true before, or the call is
  a due refresh with bytes copied, a start time set by an earlier refresh, at least
  \<open>STATUS_PERCENT_DELAY\<close> elapsed since then, and an estimate of the remaining time, taken
  in this call, above \<open>STATUS_PERCENT_MIN_DURATION\<close>. So an estimate that is not above
  \<open>STATUS_PERCENT_MIN_DURATION\<close> keeps the percentage off for that call only, every later
  refresh evaluates again, and once latched \<open>showPercent\<close> stays true over all later
  calls.
\<close>

theorem percent_latch:
  "showPercent (snd (percentUpdateStatus ops uiUpdateInterval percentText now itemsDelta bytesDelta p)) =
     (showPercent p \<or>
      (lastUpdate p + (uiUpdateInterval div 2) * 1000000 \<le> now \<and>
       0 < bytesReported (snd (reportDelta itemsDelta bytesDelta (statReporter p))) \<and>
       startTime p \<noteq> 0 \<and>
       STATUS_PERCENT_DELAY \<le> now - startTime p \<and>
       (\<exists>remSecs.
          getRemainingSec ops 0
            (bytesExpected (snd (reportDelta itemsDelta bytesDelta (statReporter p))) -
             bytesReported (snd (reportDelta itemsDelta bytesDelta (statReporter p))))
            (addSample ops (now - startTime p) 0
               (bytesReported (snd (reportDelta itemsDelta bytesDelta (statReporter p))))
               (speedTest p)) =
            Some remSecs \<and>
          STATUS_PERCENT_MIN_DURATION < remSecs)))
   \<and> (showPercent p \<longrightarrow>
        showPercent (percentUpdates ops uiUpdateInterval percentText calls p))"
  using showPercent_after [of ops uiUpdateInterval percentText now itemsDelta bytesDelta p]
    showPercent_stays [of p ops uiUpdateInterval percentText calls]
  by blast

theorem percent_latch_witness:
  "\<not> showPercent stalledStart
   \<and> \<not> showPercent
         (snd (percentUpdateStatus windowSpeedTest 100 (\<lambda>bytesCopied bytesTotal bps. ''%'')
                 7000000000 0 599 stalledStart))
   \<and> showPercent stalledLater
   \<and> showPercent
         (percentUpdates windowSpeedTest 100 (\<lambda>bytesCopied bytesTotal bps. ''%'')
            [(16000000000, 1, 399)] stalledLater)"
proof -
  have a: "\<not> showPercent stalledStart"
    by (simp add: stalledStart_eq)
  have b: "\<not> showPercent
         (snd (percentUpdateStatus windowSpeedTest 100 (\<lambda>bytesCopied bytesTotal bps. ''%'')
                 7000000000 0 599 stalledStart))"
    unfolding percent_latch [THEN conjunct1]
    by (simp add: stalledStart_eq reportDelta_def Let_def windowSpeedTest_def
        windowAddSample_def windowRemainingSec_def STATUS_PERCENT_SPEED_WINDOW_def
        STATUS_PERCENT_DELAY_def STATUS_PERCENT_MIN_DURATION_def)
  have c: "showPercent stalledLater"
    by (simp add: stalledLater_eq)
  have d: "showPercent
         (percentUpdates windowSpeedTest 100 (\<lambda>bytesCopied bytesTotal bps. ''%'')
            [(16000000000, 1, 399)] stalledLater)"
    using percent_latch [THEN conjunct2, of stalledLater] c by blast
  show ?thesis using a b c d by blast
qed

lemma pushBackAt_not_Nil: "pushBackAt k v m \<noteq> []"
  by (cases m) (auto split: if_splits)

lemma perDeviceWorkload_foldl_not_Nil:
  "m \<noteq> [] \<Longrightarrow> foldl (\<lambda>m item. pushBackAt (afsDevice (fst item)) item m) m workload \<noteq> []"
  by (induction workload arbitrary: m) (auto simp: pushBackAt_not_Nil)

lemma perDeviceWorkload_Nil_iff: "perDeviceWorkload workload = [] \<longleftrightarrow> workload = []"
proof (cases workload)
  case Nil
  then show ?thesis by (simp add: perDeviceWorkload_def)
next
  case (Cons item rest)
  then show ?thesis
    using perDeviceWorkload_foldl_not_Nil
      [of "pushBackAt (afsDevice (fst item)) item []" rest]
    by (simp add: perDeviceWorkload_def pushBackAt_not_Nil)
qed

lemma makeThreadGroups_Nil_iff: "makeThreadGroups d n c pdw = [] \<longleftrightarrow> pdw = []"
  by (cases pdw) auto

text \<open>
  Claim C7 (empty-workload safety). For the empty workload \<open>massParallelExecute\<close>
  returns at once: no worker pool is constructed and no operation of the external phase
  callback is invoked, whatever the pools and the drive loop would do. The empty workload
  is the only one for which no pool is constructed.
\<close>

theorem empty_workload_safety:
  "massParallelExecute runGroups getDisplayPath [] threadGroupName = ([], [])
   \<and> (fst (massParallelExecute runGroups getDisplayPath workload threadGroupName) = []
        \<longleftrightarrow> workload = [])"
  by (simp add: massParallelExecute_def Let_def perDeviceWorkload_Nil_iff
      makeThreadGroups_Nil_iff)

theorem empty_workload_safety_witness:
  "massParallelExecute (\<lambda>groups. [''updateStatus'']) (\<lambda>dev. ''volume'')
     ([] :: (nat AbstractPath \<times> string) list) ''Sync'' = ([], [])
   \<and> map groupTasks (fst (massParallelExecute (\<lambda>groups. [''updateStatus''])
       (\<lambda>dev. ''volume'')
       [(\<lparr>afsDevice = 1 :: nat, afsPath = ''a''\<rparr>, ''fn1''),
        (\<lparr>afsDevice = 2, afsPath = ''c''\<rparr>, ''fn3''),
        (\<lparr>afsDevice = 1, afsPath = ''b''\<rparr>, ''fn2'')] ''Sync'')) =
       [[(\<lparr>afsDevice = 1, afsPath = ''a''\<rparr>, ''fn1''), (\<lparr>afsDevice = 1, afsPath = ''b''\<rparr>, ''fn2'')],
        [(\<lparr>afsDevice = 2, afsPath = ''c''\<rparr>, ''fn3'')]]"
proof -
  have a: "massParallelExecute (\<lambda>groups. [''updateStatus'']) (\<lambda>dev. ''volume'')
     ([] :: (nat AbstractPath \<times> string) list) ''Sync'' = ([], [])"
    using empty_workload_safety
      [of "\<lambda>groups. [''updateStatus'']" "\<lambda>dev. ''volume''" "''Sync''"
          "[] :: (nat AbstractPath \<times> string) list"]
    by blast
  have b: "map groupTasks (fst (massParallelExecute (\<lambda>groups. [''updateStatus''])
       (\<lambda>dev. ''volume'')
       [(\<lparr>afsDevice = 1 :: nat, afsPath = ''a''\<rparr>, ''fn1''),
        (\<lparr>afsDevice = 2, afsPath = ''c''\<rparr>, ''fn3''),
        (\<lparr>afsDevice = 1, afsPath = ''b''\<rparr>, ''fn2'')] ''Sync'')) =
       [[(\<lparr>afsDevice = 1, afsPath = ''a''\<rparr>, ''fn1''), (\<lparr>afsDevice = 1, afsPath = ''b''\<rparr>, ''fn2'')],
        [(\<lparr>afsDevice = 2, afsPath = ''c''\<rparr>, ''fn3'')]]"
    by (simp add: massParallelExecute_def perDeviceWorkload_def Let_def)
  show ?thesis using a b by blast
qed


section \<open>Theorems: tryReportingError\<close>

lemma scripted_round_retry:
  assumes "acts a = ThrewFileError m" and "resps a = Answered retry"
  shows "tryReportingErrorFrom (scriptedCmd acts) (scriptedNow clock) (scriptedReport resps) n
           (envAfter a a L) =
         tryReportingErrorFrom (scriptedCmd acts) (scriptedNow clock) (scriptedReport resps) (n + 1)
           (envAfter (Suc a) (Suc a)
              (L @ [Invoked, Reported \<lparr>errorMsg = m, errorTime = clock a, retryNumber = n\<rparr>]))"
  by (subst tryReportingErrorFrom.simps)
     (simp add: assms scriptedCmd_def scriptedNow_def scriptedReport_def envAfter_def)

lemma scripted_round_returned:
  assumes "acts a = Returned"
  shows "tryReportingErrorFrom (scriptedCmd acts) (scriptedNow clock) (scriptedReport resps) n
           (envAfter a a L) =
         Some (Inr [], \<lparr>invocations = Suc a, reports = a, clockReads = a,
                         eventLog = L @ [Invoked]\<rparr>)"
  by (subst tryReportingErrorFrom.simps)
     (simp add: assms scriptedCmd_def envAfter_def)

lemma scripted_round_other:
  assumes "acts a = ThrewOther x"
  shows "tryReportingErrorFrom (scriptedCmd acts) (scriptedNow clock) (scriptedReport resps) n
           (envAfter a a L) =
         Some (Inl x, \<lparr>invocations = Suc a, reports = a, clockReads = a,
                         eventLog = L @ [Invoked]\<rparr>)"
  by (subst tryReportingErrorFrom.simps)
     (simp add: assms scriptedCmd_def envAfter_def)

lemma scripted_round_ignore:
  assumes "acts a = ThrewFileError m" and "resps a = Answered ignore"
  shows "tryReportingErrorFrom (scriptedCmd acts) (scriptedNow clock) (scriptedReport resps) n
           (envAfter a a L) =
         Some (Inr m, envAfter (Suc a) (Suc a)
              (L @ [Invoked, Reported \<lparr>errorMsg = m, errorTime = clock a, retryNumber = n\<rparr>]))"
  by (subst tryReportingErrorFrom.simps)
     (simp add: assms scriptedCmd_def scriptedNow_def scriptedReport_def envAfter_def)

lemma scripted_round_report_threw:
  assumes "acts a = ThrewFileError m" and "resps a = ReportThrew x"
  shows "tryReportingErrorFrom (scriptedCmd acts) (scriptedNow clock) (scriptedReport resps) n
           (envAfter a a L) =
         Some (Inl x, envAfter (Suc a) (Suc a)
              (L @ [Invoked, Reported \<lparr>errorMsg = m, errorTime = clock a, retryNumber = n\<rparr>]))"
  by (subst tryReportingErrorFrom.simps)
     (simp add: assms scriptedCmd_def scriptedNow_def scriptedReport_def envAfter_def)

lemma retryRounds_Suc:
  "retryRounds e clock (Suc k) =
     retryRounds e clock k @
       [Invoked, Reported \<lparr>errorMsg = e k, errorTime = clock k, retryNumber = of_nat k\<rparr>]"
  by (simp add: retryRounds_def)

lemma retryRounds_0: "retryRounds e clock 0 = []"
  by (simp add: retryRounds_def)

lemma scripted_rounds:
  assumes "\<forall>j<k. acts j = ThrewFileError (e j) \<and> resps j = Answered retry"
  shows "tryReportingErrorFrom (scriptedCmd acts) (scriptedNow clock) (scriptedReport resps) 0
           (envAfter 0 0 []) =
         tryReportingErrorFrom (scriptedCmd acts) (scriptedNow clock) (scriptedReport resps)
           (of_nat k) (envAfter k k (retryRounds e clock k))"
  using assms
proof (induction k)
  case 0
  show ?case by (simp add: retryRounds_0)
next
  case (Suc k)
  have sub: "\<forall>j<k. acts j = ThrewFileError (e j) \<and> resps j = Answered retry"
    using Suc.prems by simp
  note prev = Suc.IH [OF sub]
  have here: "acts k = ThrewFileError (e k)" "resps k = Answered retry"
    using Suc.prems by simp_all
  show ?case
    using scripted_round_retry
      [where acts = acts and resps = resps and a = k and m = "e k" and clock = clock
         and n = "of_nat k" and L = "retryRounds e clock k"] here
    by (simp add: prev retryRounds_Suc add.commute)
qed

lemma freshEnv_envAfter: "freshEnv = envAfter 0 0 []"
  by (simp add: freshEnv_def envAfter_def)

text \<open>
  Claim C4 (retry wrapper). For every action and callback, given by the outcomes of
  their successive calls: while the action throws a \<open>FileError\<close> and the callback answers
  \<open>retry\<close>, the wrapper invokes the action again and reports each failure with the
  error's message, the clock reading and the retry numbers 0, 1, 2, ... in order. After
  \<open>k\<close> such rounds, an action that returns makes the wrapper return the empty string; an
  action that throws anything else lets that exception leave unchanged, with no report;
  a \<open>FileError\<close> answered \<open>ignore\<close> makes it return the error's message, reported with
  retry number \<open>k\<close>, without invoking the action again; and an exception thrown by
  \<open>reportError\<close> leaves unchanged.
\<close>

theorem retry_wrapper_behaviour:
  fixes acts :: "nat \<Rightarrow> 'x CmdOutcome" and resps :: "nat \<Rightarrow> 'x ReportOutcome"
  assumes "\<forall>j<k. acts j = ThrewFileError (e j) \<and> resps j = Answered retry"
  shows "(acts k = Returned \<longrightarrow>
            tryReportingError (scriptedCmd acts) (scriptedNow clock) (scriptedReport resps) freshEnv =
              Some (Inr [], \<lparr>invocations = Suc k, reports = k, clockReads = k,
                      eventLog = (retryRounds e clock k :: 'w::len word RetryEvent list) @ [Invoked]\<rparr>))
       \<and> (acts k = ThrewOther x \<longrightarrow>
            tryReportingError (scriptedCmd acts) (scriptedNow clock) (scriptedReport resps) freshEnv =
              Some (Inl x, \<lparr>invocations = Suc k, reports = k, clockReads = k,
                      eventLog = (retryRounds e clock k :: 'w word RetryEvent list) @ [Invoked]\<rparr>))
       \<and> (acts k = ThrewFileError m \<and> resps k = Answered ignore \<longrightarrow>
            tryReportingError (scriptedCmd acts) (scriptedNow clock) (scriptedReport resps) freshEnv =
              Some (Inr m, \<lparr>invocations = Suc k, reports = Suc k, clockReads = Suc k,
                      eventLog = (retryRounds e clock k :: 'w word RetryEvent list) @
                        [Invoked, Reported \<lparr>errorMsg = m, errorTime = clock k,
                                             retryNumber = of_nat k\<rparr>]\<rparr>))
       \<and> (acts k = ThrewFileError m \<and> resps k = ReportThrew x \<longrightarrow>
            tryReportingError (scriptedCmd acts) (scriptedNow clock) (scriptedReport resps) freshEnv =
              Some (Inl x, \<lparr>invocations = Suc k, reports = Suc k, clockReads = Suc k,
                      eventLog = (retryRounds e clock k :: 'w word RetryEvent list) @
                        [Invoked, Reported \<lparr>errorMsg = m, errorTime = clock k,
                                             retryNumber = of_nat k\<rparr>]\<rparr>))"
proof -
  have start: "tryReportingError (scriptedCmd acts) (scriptedNow clock) (scriptedReport resps) freshEnv =
      tryReportingErrorFrom (scriptedCmd acts) (scriptedNow clock) (scriptedReport resps)
        (of_nat k) (envAfter k k (retryRounds e clock k :: 'w word RetryEvent list))"
    using scripted_rounds [OF assms, of clock]
    by (simp add: tryReportingError_def freshEnv_envAfter)
  show ?thesis
    unfolding start
    by (simp add: scripted_round_returned [unfolded envAfter_def]
        scripted_round_other [unfolded envAfter_def]
        scripted_round_ignore [unfolded envAfter_def]
        scripted_round_report_threw [unfolded envAfter_def] envAfter_def)
qed


theorem retry_wrapper_behaviour_witness:
  "tryReportingError
     (scriptedCmd (\<lambda>j. if j < 2 then ThrewFileError ''X'' else Returned))
     (scriptedNow (\<lambda>j. 1000 + int j))
     (scriptedReport (\<lambda>j. Answered retry)) freshEnv =
     Some (Inr [] :: unit + string,
           \<lparr>invocations = 3, reports = 2, clockReads = 2,
            eventLog = [Invoked,
                        Reported \<lparr>errorMsg = ''X'', errorTime = 1000, retryNumber = 0 :: 64 word\<rparr>,
                        Invoked,
                        Reported \<lparr>errorMsg = ''X'', errorTime = 1001, retryNumber = 1\<rparr>,
                        Invoked]\<rparr>)
   \<and> tryReportingError
     (scriptedCmd (\<lambda>j. ThrewFileError ''X''))
     (scriptedNow (\<lambda>j. 1000 + int j))
     (scriptedReport (\<lambda>j. Answered ignore)) freshEnv =
     Some (Inr ''X'' :: unit + string,
           \<lparr>invocations = 1, reports = 1, clockReads = 1,
            eventLog = [Invoked,
                        Reported \<lparr>errorMsg = ''X'', errorTime = 1000, retryNumber = 0 :: 64 word\<rparr>]\<rparr>)"
proof -
  have h2: "\<forall>j<(2::nat). (if j < 2 then ThrewFileError ''X'' else (Returned :: unit CmdOutcome)) =
                   ThrewFileError ''X'' \<and>
                 (Answered retry :: unit ReportOutcome) = Answered retry"
    by simp
  have h0: "\<forall>j<(0::nat). (ThrewFileError ''X'' :: unit CmdOutcome) = ThrewFileError ''X'' \<and>
                 (Answered ignore :: unit ReportOutcome) = Answered retry"
    by simp
  have rounds2: "(retryRounds (\<lambda>j. ''X'') (\<lambda>j. 1000 + int j) 2 :: 64 word RetryEvent list) =
      [Invoked, Reported \<lparr>errorMsg = ''X'', errorTime = 1000, retryNumber = 0\<rparr>,
       Invoked, Reported \<lparr>errorMsg = ''X'', errorTime = 1001, retryNumber = 1\<rparr>]"
    by (simp add: retryRounds_def numeral_2_eq_2)
  have rounds0: "(retryRounds (\<lambda>j. ''X'') (\<lambda>j. 1000 + int j) 0 :: 64 word RetryEvent list) = []"
    by (simp add: retryRounds_def)
  show ?thesis
    using retry_wrapper_behaviour
        [where acts = "\<lambda>j. if j < 2 then ThrewFileError ''X'' else (Returned :: unit CmdOutcome)"
           and resps = "\<lambda>j. (Answered retry :: unit ReportOutcome)"
           and e = "\<lambda>j. ''X''" and k = 2 and clock = "\<lambda>j. 1000 + int j"
           and ?'w = 64, OF h2]
      retry_wrapper_behaviour
        [where acts = "\<lambda>j. (ThrewFileError ''X'' :: unit CmdOutcome)"
           and resps = "\<lambda>j. (Answered ignore :: unit ReportOutcome)"
           and e = "\<lambda>j. ''X''" and k = 0 and clock = "\<lambda>j. 1000 + int j"
           and m = "''X''" and ?'w = 64, OF h0]
    by (simp add: rounds2 rounds0)
qed


section \<open>Theorems: request channel\<close>

lemma slotInvariant_initial: "slotInvariant initialChannel"
  by (simp add: slotInvariant_def initialChannel_def)

lemma step_preserves:
  assumes "slotInvariant s" and "step ev s = Some s'"
  shows "slotInvariant s'"
proof (cases ev)
  case (PostError t info)
  then show ?thesis
    using assms
    by (auto simp: slotInvariant_def split: WorkerPc.splits if_splits)
next
  case (TakeResponse t)
  then show ?thesis
    using assms
    by (auto simp: slotInvariant_def split: WorkerPc.splits option.splits if_splits)
next
  case (PostLog t msg)
  then show ?thesis
    using assms
    by (auto simp: slotInvariant_def split: WorkerPc.splits if_splits)
next
  case (Interrupt t)
  then show ?thesis
    using assms
    by (auto simp: slotInvariant_def split: WorkerPc.splits if_splits)
next
  case (MainWake answer logReturns)
  then show ?thesis
    using assms
    by (auto simp: slotInvariant_def split: option.splits if_splits sum.splits)
next
  case NotifyAllDone
  then show ?thesis
    using assms by (auto simp: slotInvariant_def)
qed

lemma run_preserves:
  "slotInvariant s \<Longrightarrow> run evs s = Some s' \<Longrightarrow> slotInvariant s'"
proof (induction evs arbitrary: s)
  case Nil
  then show ?case by simp
next
  case (Cons ev evs)
  then obtain s1 where s1: "step ev s = Some s1" "run evs s1 = Some s'"
    by (auto split: option.splits)
  show ?case
    using Cons.IH [OF step_preserves [OF Cons.prems(1) s1(1)] s1(2)] .
qed


lemma post_blocked:
  "errorRequest s \<noteq> None \<or> errorResponse s \<noteq> None \<Longrightarrow> step (PostError t i) s = None"
  by (auto split: WorkerPc.splits)

lemma clearing_step:
  assumes "slotInvariant s" and "step ev s = Some s'"
      and "errorRequest s \<noteq> None \<and> errorRequest s' = None \<or>
           errorResponse s \<noteq> None \<and> errorResponse s' = None"
  shows "\<exists>t i rv. ev = TakeResponse t \<and> workerPc s t = AwaitingResponse i \<and>
           errorRequest s = Some i \<and> errorResponse s = Some rv \<and>
           errorRequest s' = None \<and> errorResponse s' = None \<and>
           delivered s' = delivered s @ [(t, rv)]"
proof (cases ev)
  case (PostError t info)
  then show ?thesis
    using assms by (auto split: WorkerPc.splits if_splits)
next
  case (TakeResponse t)
  then show ?thesis
    using assms
    by (auto simp: slotInvariant_def split: WorkerPc.splits option.splits if_splits)
next
  case (PostLog t msg)
  then show ?thesis
    using assms by (auto split: WorkerPc.splits if_splits)
next
  case (Interrupt t)
  then show ?thesis
    using assms by (auto split: WorkerPc.splits if_splits)
next
  case (MainWake answer logReturns)
  then show ?thesis
    using assms by (auto split: option.splits if_splits sum.splits)
next
  case NotifyAllDone
  then show ?thesis
    using assms by auto
qed

text \<open>
  Claim C8 (error-slot exclusivity). In every state the request channel reaches from its
  initial state: while a worker has posted an error request and not yet read the
  response, the slot holds that worker's request, no \<open>reportError\<close> call can post
  another one, and no other worker is in that position; a poster passes its first wait
  only when both \<open>errorRequest_\<close> and \<open>errorResponse_\<close> are empty; and the only step
  that empties either slot is the poster's own, taken with the response present: it reads
  the response, returns it, and clears both slots together.
\<close>

theorem error_slot_exclusivity:
  assumes "run events initialChannel = Some s"
  shows "(\<forall>t i. workerPc s t = AwaitingResponse i \<longrightarrow>
            errorRequest s = Some i \<and>
            (\<forall>t' i'. step (PostError t' i') s = None) \<and>
            (\<forall>t' i'. workerPc s t' = AwaitingResponse i' \<longrightarrow> t' = t))
       \<and> (errorRequest s \<noteq> None \<or> errorResponse s \<noteq> None \<longrightarrow>
            (\<forall>t' i'. step (PostError t' i') s = None))
       \<and> (\<forall>ev s'. step ev s = Some s' \<and>
              (errorRequest s \<noteq> None \<and> errorRequest s' = None \<or>
               errorResponse s \<noteq> None \<and> errorResponse s' = None) \<longrightarrow>
              (\<exists>t i rv. ev = TakeResponse t \<and> workerPc s t = AwaitingResponse i \<and>
                 errorRequest s = Some i \<and> errorResponse s = Some rv \<and>
                 errorRequest s' = None \<and> errorResponse s' = None \<and>
                 delivered s' = delivered s @ [(t, rv)]))"
proof -
  have inv: "slotInvariant s"
    using run_preserves [OF slotInvariant_initial assms] .
  have a: "errorRequest s = Some i \<and>
            (\<forall>t' i'. step (PostError t' i') s = None) \<and>
            (\<forall>t' i'. workerPc s t' = AwaitingResponse i' \<longrightarrow> t' = t)"
    if w: "workerPc s t = AwaitingResponse i" for t i
  proof -
    have r: "errorRequest s = Some i"
      using inv w by (simp add: slotInvariant_def)
    have b: "\<forall>t' i'. step (PostError t' i') s = None"
      using r post_blocked [of s] by simp
    have u: "\<forall>t' i'. workerPc s t' = AwaitingResponse i' \<longrightarrow> t' = t"
      using inv w unfolding slotInvariant_def by blast
    show ?thesis using r b u by blast
  qed
  have b: "\<forall>t' i'. step (PostError t' i') s = None"
    if "errorRequest s \<noteq> None \<or> errorResponse s \<noteq> None"
    using post_blocked [OF that] by simp
  have c: "\<exists>t i rv. ev = TakeResponse t \<and> workerPc s t = AwaitingResponse i \<and>
                 errorRequest s = Some i \<and> errorResponse s = Some rv \<and>
                 errorRequest s' = None \<and> errorResponse s' = None \<and>
                 delivered s' = delivered s @ [(t, rv)]"
    if "step ev s = Some s' \<and>
              (errorRequest s \<noteq> None \<and> errorRequest s' = None \<or>
               errorResponse s \<noteq> None \<and> errorResponse s' = None)" for ev s'
    using clearing_step [OF inv, of ev s'] that by blast
  show ?thesis
    using a b c by blast
qed

theorem error_slot_exclusivity_witness:
  "step (PostError 2 ''E2'')
     (the (run [PostError 1 ''E1'', MainWake (Some retry) True] initialChannel)) = None
   \<and> run [PostError 1 ''E1'', PostError 2 ''E2''] initialChannel = None
   \<and> map_option delivered
        (run [PostError 1 ''E1'', MainWake (Some retry) True, TakeResponse 1, PostError 2 ''E2'']
           initialChannel) = Some [(1, retry)]"
proof -
  have r: "run [PostError 1 ''E1'', MainWake (Some retry) True] initialChannel =
      Some \<lparr>errorRequest = Some ''E1'', errorResponse = Some retry, logInfoRequest = None,
            finishNowRequest = False, workerPc = (\<lambda>t. Idle)(1 := AwaitingResponse ''E1''),
            mainPc = Waiting, delivered = []\<rparr>"
    by (simp add: initialChannel_def)
  have w: "workerPc \<lparr>errorRequest = Some ''E1'', errorResponse = Some retry, logInfoRequest = None,
            finishNowRequest = False, workerPc = (\<lambda>t. Idle)(1 := AwaitingResponse ''E1''),
            mainPc = Waiting, delivered = []\<rparr> 1 = AwaitingResponse ''E1''"
    by simp
  have a: "step (PostError 2 ''E2'')
     (the (run [PostError 1 ''E1'', MainWake (Some retry) True] initialChannel)) = None"
    unfolding r option.sel
    using error_slot_exclusivity [OF r] w by blast
  have b: "run [PostError 1 ''E1'', PostError 2 ''E2''] initialChannel = (None :: string Channel option)"
    by (simp add: initialChannel_def)
  have c: "map_option delivered
        (run [PostError 1 ''E1'', MainWake (Some retry) True, TakeResponse 1, PostError 2 ''E2'']
           (initialChannel :: string Channel)) = Some [(1, retry)]"
    by (simp add: initialChannel_def)
  show ?thesis using a b c by blast
qed

end
